theory Spec2Isabelle
  imports Complex_Main "HOL-Library.Log_Nat"
begin

section \<open>Data model (rekordbox-parser.ts, audio-player.ts, quiz-engine.ts)\<close>

text \<open>
  A JavaScript number is modelled by the real it denotes; the arithmetic of the start
  offset and of the elapsed time rounds each result to binary64 (section Numbers).
  Strings are \<open>string\<close>. An optional field is an \<open>option\<close>.
\<close>

record Track =
  id_track :: string
  name :: string
  artist :: string
  album :: string
  location :: string
  duration :: real
  bpm :: "real option"
  key :: "string option"
  genre :: "string option"

datatype NodeType = Folder | Playlist

text \<open>
  \<open>PlaylistNode\<close> is recursive through the list of its children, so it is a datatype
  whose selectors carry the interface's field names.
\<close>

datatype PlaylistNode =
  PlaylistNode (name_node: string) (type_node: NodeType) (children: "PlaylistNode list")
    (trackIds: "string list") (isSmartPlaylist: "bool option")

record PlaybackState =
  isPlaying :: bool
  currentTime :: real
  duration_ps :: real
  startOffset :: real
  maxPlayTime :: real

text \<open>
  The engine's fields. \<open>tracks\<close> is the \<open>Map\<close> from id to track, in insertion order (an
  association list with one entry per key: \<open>keys()\<close> is \<open>map fst\<close>, \<open>get\<close> is \<open>map_of\<close>);
  \<open>usedTrackIds\<close> is the \<open>Set\<close> of ids. The listener set holds callbacks of the user
  interface, which only read the state they are handed, and is left out.
\<close>

record QuizEngine =
  tracks :: "(string \<times> Track) list"
  activeTrackIds :: "string list"
  currentTrack :: "Track option"
  isRevealed :: bool
  isLoading :: bool
  error :: "string option"
  playbackState :: PlaybackState
  usedTrackIds :: "string set"

section \<open>Numbers: rounding to binary64\<close>

text \<open>
  The result of an arithmetic operation on doubles is the exact result rounded to the
  nearest binary64 number, ties to the even significand. \<open>exponentOf x\<close> is the binary
  exponent of a positive real (the \<open>e\<close> with \<open>2^e \<le> x < 2^(e+1)\<close>), computed on integers;
  \<open>ulp x\<close> is the spacing of the binary64 numbers around \<open>x\<close> (53 significant bits,
  fixed below the smallest normal exponent -1022); \<open>binary64 x\<close> is \<open>x\<close> rounded.
  Overflow to infinity is left out: every intermediate result of the start offset is at
  most the duration, and the elapsed time is the difference of two media times. NaN and
  the infinities are not numbers of the model.
\<close>

definition roundTiesToEven :: "real \<Rightarrow> int" where
  "roundTiesToEven y =
     (let f = \<lfloor>y\<rfloor>
      in if y - of_int f < 1 / 2 then f
         else if 1 / 2 < y - of_int f then f + 1
         else if even f then f else f + 1)"

definition exponentOf :: "real \<Rightarrow> int" where
  "exponentOf x = (if 1 \<le> x then bitlen \<lfloor>x\<rfloor> - 1 else - bitlen (\<lceil>1 / x\<rceil> - 1))"

definition ulp :: "real \<Rightarrow> real" where
  "ulp x = 2 powi (max (exponentOf x) (- 1022) - 52)"

definition binary64 :: "real \<Rightarrow> real" where
  "binary64 x =
     (if x = 0 then 0
      else sgn x * (ulp \<bar>x\<bar> * of_int (roundTiesToEven (\<bar>x\<bar> / ulp \<bar>x\<bar>))))"

section \<open>Flattening a playlist tree (getAllTrackIdsFromPlaylist)\<close>

text \<open>
  \<open>[...new Set(ids)]\<close>: the ids are inserted one by one into a set that keeps insertion
  order and ignores an id it already holds; the spread reads the set back as an array.
\<close>

definition setAdd :: "'a list \<Rightarrow> 'a \<Rightarrow> 'a list" where
  "setAdd acc x = (if x \<in> set acc then acc else acc @ [x])"

definition dedupe :: "'a list \<Rightarrow> 'a list" where
  "dedupe ids = foldl setAdd [] ids"

fun getAllTrackIdsFromPlaylist :: "PlaylistNode \<Rightarrow> string list" where
  "getAllTrackIdsFromPlaylist (PlaylistNode nm ty chs tids smart) =
     (if ty = Playlist then tids
      else dedupe (concat (map getAllTrackIdsFromPlaylist chs)))"

section \<open>The audio player as the engine sees it (audio-player.ts)\<close>

text \<open>
  The engine subscribes to the player in its constructor and copies every state the
  player notifies into \<open>playbackState\<close>. Each player call below ends with such a
  notification before the engine continues, so the engine's copy is the player's state.
  The audio element is outside the program: whether a resource reports its metadata and
  whether playback starts are read from an environment.
\<close>

record Env =
  randomDraw :: real
  fileExists :: "string \<Rightarrow> bool"
  randomStart :: real
  loadedmetadata :: "string \<Rightarrow> real option"
  playStarts :: bool

text \<open>
  One \<open>Env\<close> per attempt of \<open>nextTrack\<close>: \<open>randomDraw\<close> and \<open>randomStart\<close> are the two
  values of \<open>Math.random()\<close> (the draw, the start point); \<open>fileExists\<close> is what
  \<open>checkTrackExists\<close> answers for a location (\<open>False\<close> also when the check throws);
  \<open>loadedmetadata\<close> gives the duration the audio element reports for a location, or
  \<open>None\<close> when it raises its error event; \<open>playStarts\<close> says whether \<open>audio.play()\<close>
  starts playback.
\<close>

definition stoppedState :: PlaybackState where
  "stoppedState =
     \<lparr>isPlaying = False, currentTime = 0, duration_ps = 0, startOffset = 0, maxPlayTime = 30\<rparr>"

definition stop :: "QuizEngine \<Rightarrow> QuizEngine" where
  "stop q = q\<lparr>playbackState := stoppedState\<rparr>"

definition load :: "Env \<Rightarrow> string \<Rightarrow> real \<Rightarrow> real \<Rightarrow> QuizEngine \<Rightarrow> bool \<times> QuizEngine" where
  "load e filePath startOffset' maxPlayTime' q =
     (let q1 = stop q;
          st = \<lparr>isPlaying = False, currentTime = 0, duration_ps = 0,
                startOffset = startOffset', maxPlayTime = maxPlayTime'\<rparr>
      in case loadedmetadata e filePath of
           None \<Rightarrow> (False, q1\<lparr>playbackState := st\<rparr>)
         | Some d \<Rightarrow> (True, q1\<lparr>playbackState := st\<lparr>duration_ps := d\<rparr>\<rparr>))"

definition play :: "Env \<Rightarrow> QuizEngine \<Rightarrow> QuizEngine" where
  "play e q =
     (if playStarts e then q\<lparr>playbackState := (playbackState q)\<lparr>isPlaying := True\<rparr>\<rparr> else q)"

section \<open>The audio player itself (audio-player.ts)\<close>

text \<open>
  \<open>AudioPlayer\<close> holds its playback state and the handle of the sampling interval
  (\<open>updateInterval\<close>: held or not; a held handle is a positive number, so the source's
  truth test is the test for \<open>null\<close>). The audio element is outside the program. What
  the player calls on it is returned as a list of \<open>AudioCall\<close>s; what it reports back
  (its play, pause, ended, error and loadedmetadata events, and its current time when the
  interval fires) comes in as a \<open>PlayerEvent\<close>, as do the calls made on the player.
  The interval fires every 100 ms of real time while it is held; the model has the
  firings, not the time between them. Listeners are notified after each change and are
  left out.
\<close>

record AudioPlayer =
  state :: PlaybackState
  updateInterval :: bool

datatype AudioCall = AudioPlay | AudioPause | AudioSetSrc string

definition startUpdateLoop :: "AudioPlayer \<Rightarrow> AudioPlayer" where
  "startUpdateLoop p = (if updateInterval p then p else p\<lparr>updateInterval := True\<rparr>)"

definition stopUpdateLoop :: "AudioPlayer \<Rightarrow> AudioPlayer" where
  "stopUpdateLoop p = (if updateInterval p then p\<lparr>updateInterval := False\<rparr> else p)"

definition handlePlay :: "AudioPlayer \<Rightarrow> AudioPlayer" where
  "handlePlay p = startUpdateLoop (p\<lparr>state := (state p)\<lparr>isPlaying := True\<rparr>\<rparr>)"

definition handlePause :: "AudioPlayer \<Rightarrow> AudioPlayer" where
  "handlePause p = stopUpdateLoop (p\<lparr>state := (state p)\<lparr>isPlaying := False\<rparr>\<rparr>)"

definition handleEnded :: "AudioPlayer \<Rightarrow> AudioPlayer" where
  "handleEnded p = stopUpdateLoop (p\<lparr>state := (state p)\<lparr>isPlaying := False\<rparr>\<rparr>)"

definition handleLoadedMetadata :: "real \<Rightarrow> AudioPlayer \<Rightarrow> AudioPlayer" where
  "handleLoadedMetadata audioDuration p =
     p\<lparr>state := (state p)\<lparr>duration_ps := audioDuration\<rparr>\<rparr>"

definition handleError :: "AudioPlayer \<Rightarrow> AudioPlayer" where
  "handleError p = stopUpdateLoop (p\<lparr>state := (state p)\<lparr>isPlaying := False\<rparr>\<rparr>)"

definition pause :: "AudioPlayer \<Rightarrow> AudioPlayer \<times> AudioCall list" where
  "pause p = (p, [AudioPause])"

definition play_player :: "AudioPlayer \<Rightarrow> AudioPlayer \<times> AudioCall list" where
  "play_player p = (p, [AudioPlay])"

definition toggle :: "AudioPlayer \<Rightarrow> AudioPlayer \<times> AudioCall list" where
  "toggle p = (if isPlaying (state p) then pause p else play_player p)"

definition stop_player :: "AudioPlayer \<Rightarrow> AudioPlayer \<times> AudioCall list" where
  "stop_player p = (p\<lparr>state := stoppedState\<rparr>, snd (pause p) @ [AudioSetSrc ''''])"

text \<open>
  The callback of \<open>setInterval\<close> in \<open>startUpdateLoop\<close>, given the audio element's current
  time: the elapsed time is a double subtraction.
\<close>

definition updateLoopTick :: "real \<Rightarrow> AudioPlayer \<Rightarrow> AudioPlayer \<times> AudioCall list" where
  "updateLoopTick audioCurrentTime p =
     (let elapsed = binary64 (audioCurrentTime - startOffset (state p));
          p1 = p\<lparr>state := (state p)\<lparr>currentTime := elapsed\<rparr>\<rparr>
      in if maxPlayTime (state p1) \<le> elapsed then (p1, snd (pause p1)) else (p1, []))"

datatype PlayerEvent =
    PlayEvent | PauseEvent | EndedEvent | ErrorEvent | LoadedMetadataEvent real
  | IntervalTick real
  | PlayCall | PauseCall | ToggleCall | StopCall

text \<open>
  One step of the player. The interval's callback runs only while the interval is held:
  a cleared interval does not fire.
\<close>

fun step :: "PlayerEvent \<Rightarrow> AudioPlayer \<Rightarrow> AudioPlayer \<times> AudioCall list" where
  "step PlayEvent p = (handlePlay p, [])"
| "step PauseEvent p = (handlePause p, [])"
| "step EndedEvent p = (handleEnded p, [])"
| "step ErrorEvent p = (handleError p, [])"
| "step (LoadedMetadataEvent d) p = (handleLoadedMetadata d p, [])"
| "step (IntervalTick t) p = (if updateInterval p then updateLoopTick t p else (p, []))"
| "step PlayCall p = play_player p"
| "step PauseCall p = pause p"
| "step ToggleCall p = toggle p"
| "step StopCall p = stop_player p"

fun run :: "PlayerEvent list \<Rightarrow> AudioPlayer \<Rightarrow> AudioPlayer \<times> AudioCall list" where
  "run [] p = (p, [])"
| "run (ev # evs) p =
     (case step ev p of (p1, calls1) \<Rightarrow>
        (case run evs p1 of (p2, calls2) \<Rightarrow> (p2, calls1 @ calls2)))"

fun isTick :: "PlayerEvent \<Rightarrow> bool" where
  "isTick (IntervalTick t) = True"
| "isTick ev = False"

section \<open>The quiz engine (quiz-engine.ts)\<close>

definition newQuizEngine :: "(string \<times> Track) list \<Rightarrow> QuizEngine" where
  "newQuizEngine ts =
     \<lparr>tracks = ts, activeTrackIds = map fst ts, currentTrack = None, isRevealed = False,
      isLoading = False, error = None, playbackState = stoppedState, usedTrackIds = {}\<rparr>"

definition reset :: "QuizEngine \<Rightarrow> QuizEngine" where
  "reset q =
     (stop q)\<lparr>currentTrack := None, isRevealed := False, isLoading := False,
              error := None, usedTrackIds := {}\<rparr>"

definition setPlaylistFilter :: "PlaylistNode option \<Rightarrow> QuizEngine \<Rightarrow> QuizEngine" where
  "setPlaylistFilter playlist q =
     reset (case playlist of
              None \<Rightarrow> q\<lparr>activeTrackIds := map fst (tracks q)\<rparr>
            | Some node \<Rightarrow> q\<lparr>activeTrackIds := getAllTrackIdsFromPlaylist node\<rparr>)"

text \<open>
  \<open>Math.floor(Math.random() * n)\<close>, and reading an array at that index: outside the
  array JavaScript reads \<open>undefined\<close>, which is no key of the track map.
\<close>

definition randomIndex :: "real \<Rightarrow> nat \<Rightarrow> int" where
  "randomIndex r n = \<lfloor>r * real n\<rfloor>"

definition elementAt :: "'a list \<Rightarrow> int \<Rightarrow> 'a option" where
  "elementAt xs i = (if 0 \<le> i \<and> i < int (length xs) then Some (xs ! nat i) else None)"

definition tracksGet :: "QuizEngine \<Rightarrow> string option \<Rightarrow> Track option" where
  "tracksGet q trackId = (case trackId of None \<Rightarrow> None | Some k \<Rightarrow> map_of (tracks q) k)"

definition getRandomTrack :: "real \<Rightarrow> QuizEngine \<Rightarrow> Track option" where
  "getRandomTrack r q =
     (if length (activeTrackIds q) = 0 then None
      else tracksGet q (elementAt (activeTrackIds q) (randomIndex r (length (activeTrackIds q)))))"

definition getRandomUnusedTrack :: "real \<Rightarrow> QuizEngine \<Rightarrow> Track option \<times> QuizEngine" where
  "getRandomUnusedTrack r q =
     (let unusedIds = filter (\<lambda>i. i \<notin> usedTrackIds q) (activeTrackIds q)
      in if length unusedIds = 0
         then (getRandomTrack r (q\<lparr>usedTrackIds := {}\<rparr>), q\<lparr>usedTrackIds := {}\<rparr>)
         else (tracksGet q (elementAt unusedIds (randomIndex r (length unusedIds))), q))"

definition getRandomStartPoint :: "real \<Rightarrow> real \<Rightarrow> real" where
  "getRandomStartPoint d r =
     (let startRange = binary64 (d * 0.25);
          endRange = binary64 (d * 0.75);
          range = binary64 (endRange - startRange)
      in binary64 (startRange + binary64 (r * range)))"

definition checkTrackExists :: "Env \<Rightarrow> Track \<Rightarrow> bool" where
  "checkTrackExists e track = fileExists e (location track)"

text \<open>
  \<open>nextTrack\<close>. The entry sets \<open>isLoading\<close>, clears \<open>error\<close> and stops the player. One
  pass of the \<open>while\<close> body either returns from the call (\<open>Return\<close>: no track, or a track
  loaded) or goes round again after \<open>attempts++\<close> (\<open>Continue\<close>: file missing, or the load
  rejected). The engine runs one operation at a time: no other operation is interleaved
  at the awaits.
\<close>

definition maxAttempts :: nat where
  "maxAttempts = 10"

definition nextTrack_begin :: "QuizEngine \<Rightarrow> QuizEngine" where
  "nextTrack_begin q = stop (q\<lparr>isLoading := True, error := None\<rparr>)"

datatype LoopStep = Return QuizEngine | Continue QuizEngine

definition attempt :: "Env \<Rightarrow> QuizEngine \<Rightarrow> LoopStep" where
  "attempt e q =
     (case getRandomUnusedTrack (randomDraw e) q of
        (None, q1) \<Rightarrow> Return (q1\<lparr>error := Some ''No tracks available'', isLoading := False\<rparr>)
      | (Some track, q1) \<Rightarrow>
          if \<not> checkTrackExists e track
          then Continue (q1\<lparr>usedTrackIds := insert (id_track track) (usedTrackIds q1)\<rparr>)
          else
            (let startOffset' = getRandomStartPoint (duration track) (randomStart e)
             in case load e (location track) startOffset' 30 q1 of
                  (True, q2) \<Rightarrow>
                    Return (play e (q2\<lparr>currentTrack := Some track, isRevealed := False,
                                       usedTrackIds := insert (id_track track) (usedTrackIds q2),
                                       isLoading := False\<rparr>))
                | (False, q2) \<Rightarrow>
                    Continue (q2\<lparr>usedTrackIds := insert (id_track track) (usedTrackIds q2)\<rparr>)))"

function nextTrack_loop :: "nat \<Rightarrow> (nat \<Rightarrow> Env) \<Rightarrow> QuizEngine \<Rightarrow> QuizEngine" where
  "nextTrack_loop attempts envs q =
     (if attempts < maxAttempts
      then (case attempt (envs attempts) q of
              Return q' \<Rightarrow> q'
            | Continue q' \<Rightarrow> nextTrack_loop (attempts + 1) envs q')
      else q\<lparr>error := Some ''Could not find a playable track'', currentTrack := None,
             isRevealed := False, isLoading := False\<rparr>)"
  by pat_completeness auto
termination
  by (relation "measure (\<lambda>(attempts, envs, q). maxAttempts - attempts)") auto

declare nextTrack_loop.simps [simp del]

definition nextTrack :: "(nat \<Rightarrow> Env) \<Rightarrow> QuizEngine \<Rightarrow> QuizEngine" where
  "nextTrack envs q = nextTrack_loop 0 envs (nextTrack_begin q)"

definition reveal :: "QuizEngine \<Rightarrow> QuizEngine" where
  "reveal q = (if currentTrack q \<noteq> None then q\<lparr>isRevealed := True\<rparr> else q)"

section \<open>Observations on a run\<close>

text \<open>
  \<open>drawnTrackId\<close> is the value of the local \<open>trackId\<close> in a call of
  \<open>getRandomUnusedTrack\<close> (none when the active list is empty): the id drawn, before it is
  looked up in the track map.
\<close>

definition drawnTrackId :: "real \<Rightarrow> QuizEngine \<Rightarrow> string option" where
  "drawnTrackId r q =
     (let unusedIds = filter (\<lambda>i. i \<notin> usedTrackIds q) (activeTrackIds q);
          pool = (if length unusedIds = 0 then activeTrackIds q else unusedIds)
      in elementAt pool (randomIndex r (length pool)))"

text \<open>
  \<open>loopStateAt envs q k\<close> is the engine at the head of the \<open>while\<close> loop after \<open>k\<close> passes
  of its body, starting from \<open>q\<close>.
\<close>

primrec loopStateAt :: "(nat \<Rightarrow> Env) \<Rightarrow> QuizEngine \<Rightarrow> nat \<Rightarrow> QuizEngine" where
  "loopStateAt envs q 0 = q"
| "loopStateAt envs q (Suc k) =
     (case attempt (envs k) (loopStateAt envs q k) of Return q' \<Rightarrow> q' | Continue q' \<Rightarrow> q')"

text \<open>
  \<open>drawSequence rs q\<close> repeats the draw with the random values \<open>rs\<close>, adding the id of each
  returned track to \<open>usedTrackIds\<close> as every path of \<open>nextTrack\<close> does after a draw, and
  lists what the draws return: the id of the track, or nothing. A draw that returns
  nothing marks nothing.
\<close>

fun drawSequence :: "real list \<Rightarrow> QuizEngine \<Rightarrow> string option list" where
  "drawSequence [] q = []"
| "drawSequence (r # rs) q =
     (case getRandomUnusedTrack r q of
        (None, q1) \<Rightarrow> None # drawSequence rs q1
      | (Some track, q1) \<Rightarrow>
          Some (id_track track)
            # drawSequence rs (q1\<lparr>usedTrackIds := insert (id_track track) (usedTrackIds q1)\<rparr>))"

text \<open>
  Both ingestion paths (\<open>parseRekordboxXml\<close>, \<open>readRekordboxDatabase\<close>) build the track map
  with \<open>tracks.set(track.id, track)\<close> for each parsed track in turn. \<open>mapSet\<close> is \<open>Map.set\<close>
  on the insertion-ordered list: a key already present keeps its place and takes the new
  value, a new key goes to the end. \<open>collectTracks\<close> is the loop over the parsed tracks.
\<close>

fun mapSet :: "('k \<times> 'v) list \<Rightarrow> 'k \<Rightarrow> 'v \<Rightarrow> ('k \<times> 'v) list" where
  "mapSet [] k v = [(k, v)]"
| "mapSet ((k', v') # m) k v = (if k' = k then (k, v) # m else (k', v') # mapSet m k v)"

definition collectTracks :: "Track list \<Rightarrow> (string \<times> Track) list" where
  "collectTracks ts = foldl (\<lambda>m t. mapSet m (id_track t) t) [] ts"

text \<open>
  \<open>keyedById\<close> says that every active id with an entry in the track map has a track with
  that id as its entry.
\<close>

definition keyedById :: "QuizEngine \<Rightarrow> bool" where
  "keyedById q = (\<forall>k \<in> set (activeTrackIds q). \<forall>t. map_of (tracks q) k = Some t \<longrightarrow> id_track t = k)"


section \<open>A sample library and sample environments\<close>

text \<open>
  Three tracks \<open>A\<close>, \<open>B\<close>, \<open>C\<close>; an environment in which every file is missing, one in
  which every file exists and loads, and one in which the file is missing in the passes
  0, 2, 4, 6, 8 and the load is rejected in the passes 1, 3, 5, 7, 9; the engine over a
  library at the head of the retry loop with a given playback state and set of used ids;
  a player after a load at start offset 50 with the cap of 30 seconds; a track map whose
  keys \<open>K\<close>, \<open>L\<close> are not the ids \<open>T\<close>, \<open>U\<close> of its tracks; a playlist that refers to an id
  \<open>X\<close> the library does not hold.
\<close>

definition sampleTrack :: "string \<Rightarrow> Track" where
  "sampleTrack i =
     \<lparr>id_track = i, name = ''Name '' @ i, artist = ''Artist'', album = ''Album'',
      location = ''/music/'' @ i @ ''.mp3'', duration = 100, bpm = None, key = None,
      genre = None\<rparr>"

definition sampleLibrary :: "(string \<times> Track) list" where
  "sampleLibrary = [(''A'', sampleTrack ''A''), (''B'', sampleTrack ''B''), (''C'', sampleTrack ''C'')]"

definition missingEnv :: "nat \<Rightarrow> Env" where
  "missingEnv k =
     \<lparr>randomDraw = 0, fileExists = (\<lambda>l. False), randomStart = 1 / 2,
      loadedmetadata = (\<lambda>l. None), playStarts = False\<rparr>"

definition playableEnv :: "nat \<Rightarrow> Env" where
  "playableEnv k =
     \<lparr>randomDraw = 0, fileExists = (\<lambda>l. True), randomStart = 1 / 2,
      loadedmetadata = (\<lambda>l. Some 100), playStarts = True\<rparr>"




definition loadedPlayer :: AudioPlayer where
  "loadedPlayer =
     \<lparr>state = \<lparr>isPlaying = False, currentTime = 0, duration_ps = 200, startOffset = 50,
               maxPlayTime = 30\<rparr>,
      updateInterval = False\<rparr>"

definition unkeyedLibrary :: "(string \<times> Track) list" where
  "unkeyedLibrary = [(''K'', sampleTrack ''T''), (''L'', sampleTrack ''U'')]"

definition danglingPlaylist :: PlaylistNode where
  "danglingPlaylist = PlaylistNode ''P'' Playlist [] [''X'', ''A''] None"

section \<open>Properties of the flattening\<close>

lemma set_foldl_setAdd: "set (foldl setAdd acc xs) = set acc \<union> set xs"
  by (induction xs arbitrary: acc) (auto simp: setAdd_def)

lemma distinct_foldl_setAdd: "distinct acc \<Longrightarrow> distinct (foldl setAdd acc xs)"
  by (induction xs arbitrary: acc) (auto simp: setAdd_def)

lemma set_dedupe: "set (dedupe xs) = set xs"
  by (simp add: dedupe_def set_foldl_setAdd)

lemma distinct_dedupe: "distinct (dedupe xs)"
  by (simp add: dedupe_def distinct_foldl_setAdd)


text \<open>
  Claim C5. Flattening a Playlist node returns its track-id references verbatim.
  Flattening a Folder node returns the deduplicated concatenation of the flattenings of
  its children: its ids are exactly the ids of the children's flattenings, and no id
  appears more than once, also when two descendant playlists share a track.
\<close>

theorem getAllTrackIdsFromPlaylist_flatten:
  "(type_node n = Playlist \<longrightarrow> getAllTrackIdsFromPlaylist n = trackIds n) \<and>
   (type_node n = Folder \<longrightarrow>
      getAllTrackIdsFromPlaylist n
        = dedupe (concat (map getAllTrackIdsFromPlaylist (children n))) \<and>
      set (getAllTrackIdsFromPlaylist n)
        = (\<Union>c \<in> set (children n). set (getAllTrackIdsFromPlaylist c)) \<and>
      distinct (getAllTrackIdsFromPlaylist n))"
  by (cases n) (simp add: set_dedupe distinct_dedupe)

theorem getAllTrackIdsFromPlaylist_flatten_witness:
  "type_node (PlaylistNode ''A'' Playlist [] [''1'', ''2'', ''1''] None) = Playlist \<and>
   getAllTrackIdsFromPlaylist (PlaylistNode ''A'' Playlist [] [''1'', ''2'', ''1''] None)
     = [''1'', ''2'', ''1''] \<and>
   type_node (PlaylistNode ''ROOT'' Folder
       [PlaylistNode ''A'' Playlist [] [''1'', ''2''] None,
        PlaylistNode ''B'' Playlist [] [''2'', ''3''] None] [] None) = Folder \<and>
   getAllTrackIdsFromPlaylist (PlaylistNode ''ROOT'' Folder
       [PlaylistNode ''A'' Playlist [] [''1'', ''2''] None,
        PlaylistNode ''B'' Playlist [] [''2'', ''3''] None] [] None) = [''1'', ''2'', ''3''] \<and>
   distinct (getAllTrackIdsFromPlaylist (PlaylistNode ''ROOT'' Folder
       [PlaylistNode ''A'' Playlist [] [''1'', ''2''] None,
        PlaylistNode ''B'' Playlist [] [''2'', ''3''] None] [] None))"
  using getAllTrackIdsFromPlaylist_flatten
          [of "PlaylistNode ''A'' Playlist [] [''1'', ''2'', ''1''] None"]
        getAllTrackIdsFromPlaylist_flatten
          [of "PlaylistNode ''ROOT'' Folder
                 [PlaylistNode ''A'' Playlist [] [''1'', ''2''] None,
                  PlaylistNode ''B'' Playlist [] [''2'', ''3''] None] [] None"]
  by (simp add: dedupe_def setAdd_def)

section \<open>Reset, filter change and reveal\<close>

text \<open>
  Claim C8. \<open>reset\<close> is idempotent: resetting twice gives exactly the state of resetting
  once. After a reset the current track, the revealed flag, the loading flag and the
  error are cleared, the set of used ids is empty and the player is stopped.
\<close>

theorem reset_idempotent:
  fixes q :: QuizEngine
  shows "reset (reset q) = reset q \<and>
         currentTrack (reset q) = None \<and> \<not> isRevealed (reset q) \<and>
         \<not> isLoading (reset q) \<and> error (reset q) = None \<and>
         usedTrackIds (reset q) = {} \<and> playbackState (reset q) = stoppedState"
  by (simp add: reset_def stop_def)

text \<open>
  Claim C4. Every call of \<open>setPlaylistFilter\<close> replaces the active ids (the keys of the
  track map for no playlist, the flattening of the node otherwise) and then resets:
  playback is stopped (the player is not playing, at elapsed time 0, with no duration and
  no start offset) and the current track, the revealed flag, the loading flag, the error
  and the used ids are cleared, whatever the state was. So this also holds for a call
  with the playlist already selected, which gives the same state again.
\<close>

theorem setPlaylistFilter_replaces_and_resets:
  fixes q :: QuizEngine
  shows "setPlaylistFilter p q =
           \<lparr>tracks = tracks q,
            activeTrackIds = (case p of None \<Rightarrow> map fst (tracks q)
                                      | Some node \<Rightarrow> getAllTrackIdsFromPlaylist node),
            currentTrack = None, isRevealed = False, isLoading = False, error = None,
            playbackState = stoppedState, usedTrackIds = {}\<rparr> \<and>
         playbackState (setPlaylistFilter p q)
           = \<lparr>isPlaying = False, currentTime = 0, duration_ps = 0, startOffset = 0,
              maxPlayTime = 30\<rparr> \<and>
         \<not> isPlaying (playbackState (setPlaylistFilter p q)) \<and>
         currentTrack (setPlaylistFilter p q) = None \<and>
         \<not> isRevealed (setPlaylistFilter p q) \<and>
         \<not> isLoading (setPlaylistFilter p q) \<and>
         error (setPlaylistFilter p q) = None \<and>
         usedTrackIds (setPlaylistFilter p q) = {} \<and>
         tracks (setPlaylistFilter p q) = tracks q \<and>
         setPlaylistFilter p (setPlaylistFilter p q) = setPlaylistFilter p q"
  by (cases p) (simp_all add: setPlaylistFilter_def reset_def stop_def stoppedState_def)

text \<open>
  Claim C9. \<open>reveal\<close> leaves the engine as it is when there is no current track. With a
  current track it sets the revealed flag and changes nothing else: the track map, the
  active ids, the current track, the loading flag, the error, the used ids and the
  playback state are those of before.
\<close>

theorem reveal_sets_only_isRevealed:
  fixes q :: QuizEngine
  shows "(currentTrack q = None \<longrightarrow> reveal q = q) \<and>
         (currentTrack q \<noteq> None \<longrightarrow>
            reveal q = q\<lparr>isRevealed := True\<rparr> \<and> isRevealed (reveal q) \<and>
            tracks (reveal q) = tracks q \<and>
            activeTrackIds (reveal q) = activeTrackIds q \<and>
            currentTrack (reveal q) = currentTrack q \<and>
            isLoading (reveal q) = isLoading q \<and>
            error (reveal q) = error q \<and>
            usedTrackIds (reveal q) = usedTrackIds q \<and>
            playbackState (reveal q) = playbackState q)"
  by (simp add: reveal_def)

theorem reveal_sets_only_isRevealed_witness:
  "currentTrack (newQuizEngine []) = None \<and>
   reveal (newQuizEngine []) = newQuizEngine [] \<and>
   currentTrack ((newQuizEngine [])\<lparr>currentTrack := Some 
        \<lparr>id_track = ''1'', name = ''n'', artist = ''a'', album = ''b'', location = ''/m/1.mp3'',
           duration = 100, bpm = None, key = None, genre = None\<rparr>,
       error := Some ''e''\<rparr>) \<noteq> None \<and>
   reveal ((newQuizEngine [])\<lparr>currentTrack := Some 
        \<lparr>id_track = ''1'', name = ''n'', artist = ''a'', album = ''b'', location = ''/m/1.mp3'',
           duration = 100, bpm = None, key = None, genre = None\<rparr>,
       error := Some ''e''\<rparr>)
     = (newQuizEngine [])\<lparr>currentTrack := Some 
        \<lparr>id_track = ''1'', name = ''n'', artist = ''a'', album = ''b'', location = ''/m/1.mp3'',
           duration = 100, bpm = None, key = None, genre = None\<rparr>,
       error := Some ''e'', isRevealed := True\<rparr>"
  using reveal_sets_only_isRevealed [of "newQuizEngine []"]
        reveal_sets_only_isRevealed
          [of "(newQuizEngine [])\<lparr>currentTrack := Some 
        \<lparr>id_track = ''1'', name = ''n'', artist = ''a'', album = ''b'', location = ''/m/1.mp3'',
           duration = 100, bpm = None, key = None, genre = None\<rparr>,
       error := Some ''e''\<rparr>"]
  by (simp add: newQuizEngine_def)

section \<open>Rounding to binary64\<close>

lemma exponentOf_bounds:
  assumes "0 < x"
  shows "2 powi (exponentOf x) \<le> x \<and> x < 2 powi (exponentOf x + 1)"
proof (cases "1 \<le> x")
  case True
  define n where "n = \<lfloor>x\<rfloor>"
  define b where "b = bitlen n"
  have n: "1 \<le> n" using True by (simp add: n_def)
  have bb: "2 ^ nat (b - 1) \<le> n \<and> n < 2 ^ nat b"
    using bitlen_bounds [of n] n by (simp add: b_def)
  have b1: "1 \<le> b"
    using n by (simp add: b_def bitlen_alt_def)
  have e: "exponentOf x = b - 1"
    using True by (simp add: exponentOf_def n_def b_def)
  have "(2::real) powi (b - 1) = 2 ^ nat (b - 1)"
    using b1 by (simp add: power_int_nonneg_exp)
  also have "\<dots> = of_int (2 ^ nat (b - 1))" by simp
  also have "\<dots> \<le> of_int n" using bb by (simp only: of_int_le_iff)
  also have "\<dots> \<le> x" unfolding n_def by linarith
  finally have lo: "2 powi (b - 1) \<le> x" .
  have cast: "(of_int (2 ^ k) :: real) = 2 ^ k" for k by simp
  have "n + 1 \<le> 2 ^ nat b" using bb by simp
  then have "of_int (n + 1) \<le> (of_int (2 ^ nat b) :: real)" by (simp only: of_int_le_iff)
  moreover have "x < of_int (n + 1)" unfolding n_def by linarith
  ultimately have "x < 2 ^ nat b" unfolding cast by linarith
  moreover have "(2::real) powi b = 2 ^ nat b"
    using b1 by (simp add: power_int_nonneg_exp)
  ultimately have hi: "x < 2 powi b" by simp
  show ?thesis using lo hi e by simp
next
  case False
  define y where "y = 1 / x"
  define c where "c = \<lceil>y\<rceil>"
  define b where "b = bitlen (c - 1)"
  have x1: "x < 1" using False by simp
  have y1: "1 < y" using assms x1 by (simp add: y_def)
  have c2: "2 \<le> c" using y1 by (simp add: c_def le_ceiling_iff)
  have bb: "2 ^ nat (b - 1) \<le> c - 1 \<and> c - 1 < 2 ^ nat b"
    using bitlen_bounds [of "c - 1"] c2 by (simp add: b_def)
  have b1: "1 \<le> b"
    using c2 by (simp add: b_def bitlen_alt_def)
  have e: "exponentOf x = - b"
    using False by (simp add: exponentOf_def y_def c_def b_def)
  have yc: "y \<le> of_int c" "of_int (c - 1) < y"
    unfolding c_def by linarith+
  have cast: "(of_int (2 ^ k) :: real) = 2 ^ k" for k by simp
  have "c \<le> 2 ^ nat b" using bb by simp
  then have "of_int c \<le> (of_int (2 ^ nat b) :: real)" by (simp only: of_int_le_iff)
  then have yhi: "y \<le> 2 ^ nat b" using yc(1) unfolding cast by linarith
  have "(of_int (2 ^ nat (b - 1)) :: real) \<le> of_int (c - 1)"
    using bb by (simp only: of_int_le_iff)
  then have ylo: "2 ^ nat (b - 1) < y" using yc(2) unfolding cast by linarith
  have xy: "x = 1 / y" using assms by (simp add: y_def)
  have p1: "(2::real) powi (- b) = 1 / 2 ^ nat b"
    using b1 by (simp add: power_int_def inverse_eq_divide power_one_over)
  have p2: "(2::real) powi (- b + 1) = 1 / 2 ^ nat (b - 1)"
  proof -
    have "- b + 1 = - (b - 1)" by simp
    then show ?thesis
      using b1 by (simp only: power_int_minus_divide power_int_nonneg_exp diff_ge_0_iff_ge)
  qed
  have lo: "2 powi (- b) \<le> x"
    unfolding p1 xy using yhi y1 by (simp add: field_simps)
  have hi: "x < 2 powi (- b + 1)"
    unfolding p2 xy using ylo y1 by (simp add: field_simps)
  show ?thesis using lo hi e by simp
qed

lemma exponentOf_unique:
  assumes "0 < x" and "2 powi k \<le> x" and "x < 2 powi (k + 1)"
  shows "exponentOf x = k"
proof -
  define e where "e = exponentOf x"
  have b: "2 powi e \<le> x" "x < 2 powi (e + 1)"
    using exponentOf_bounds [OF assms(1)] by (simp_all add: e_def)
  have "\<not> k + 1 \<le> e"
  proof
    assume "k + 1 \<le> e"
    then have "(2::real) powi (k + 1) \<le> 2 powi e" by (intro power_int_increasing) simp_all
    with b(1) assms(3) show False by simp
  qed
  moreover have "\<not> e + 1 \<le> k"
  proof
    assume "e + 1 \<le> k"
    then have "(2::real) powi (e + 1) \<le> 2 powi k" by (intro power_int_increasing) simp_all
    with b(2) assms(2) show False by simp
  qed
  ultimately show ?thesis by (simp add: e_def)
qed

lemma exponentOf_mono:
  assumes "0 < x" and "x \<le> y"
  shows "exponentOf x \<le> exponentOf y"
proof (rule ccontr)
  assume "\<not> exponentOf x \<le> exponentOf y"
  then have "exponentOf y + 1 \<le> exponentOf x" by simp
  then have "(2::real) powi (exponentOf y + 1) \<le> 2 powi (exponentOf x)"
    by (intro power_int_increasing) simp_all
  moreover have "2 powi (exponentOf x) \<le> x" using exponentOf_bounds [OF assms(1)] by simp
  moreover have "y < 2 powi (exponentOf y + 1)"
    using exponentOf_bounds [of y] assms by simp
  ultimately show False using assms(2) by simp
qed

lemma roundTiesToEven_of_int [simp]: "roundTiesToEven (of_int n) = n"
  by (simp add: roundTiesToEven_def)

lemma roundTiesToEven_range:
  "\<lfloor>y\<rfloor> \<le> roundTiesToEven y \<and> roundTiesToEven y \<le> \<lfloor>y\<rfloor> + 1"
  by (simp add: roundTiesToEven_def Let_def)

lemma roundTiesToEven_mono:
  assumes "x \<le> y"
  shows "roundTiesToEven x \<le> roundTiesToEven y"
proof (cases "\<lfloor>x\<rfloor> = \<lfloor>y\<rfloor>")
  case True
  with assms show ?thesis
    by (auto simp: roundTiesToEven_def Let_def)
next
  case False
  with assms have "\<lfloor>x\<rfloor> < \<lfloor>y\<rfloor>" using floor_mono [OF assms] by simp
  then have "\<lfloor>x\<rfloor> + 1 \<le> \<lfloor>y\<rfloor>" by simp
  with roundTiesToEven_range [of x] roundTiesToEven_range [of y] show ?thesis by linarith
qed

lemma roundTiesToEven_le: "y \<le> of_int n \<Longrightarrow> roundTiesToEven y \<le> n"
  using roundTiesToEven_mono [of y "of_int n"] by simp

lemma roundTiesToEven_ge: "of_int n \<le> y \<Longrightarrow> n \<le> roundTiesToEven y"
  using roundTiesToEven_mono [of "of_int n" y] by simp


lemma ulp_pos: "0 < ulp x"
  by (simp add: ulp_def)

lemma binary64_pos_eq:
  "0 < x \<Longrightarrow> binary64 x = ulp x * of_int (roundTiesToEven (x / ulp x))"
  by (simp add: binary64_def)

lemma binary64_zero [simp]: "binary64 0 = 0"
  by (simp add: binary64_def)

lemma ulp_times:
  "ulp x * of_int (2 ^ k) = 2 powi (max (exponentOf x) (- 1022) - 52 + int k)"
proof -
  have "(2::real) powi (max (exponentOf x) (- 1022) - 52 + int k)
          = 2 powi (max (exponentOf x) (- 1022) - 52) * 2 powi (int k)"
    by (rule power_int_add) simp
  then show ?thesis by (simp add: ulp_def)
qed

lemma binary64_nonneg:
  assumes "0 \<le> x"
  shows "0 \<le> binary64 x"
proof (cases "x = 0")
  case True
  then show ?thesis by simp
next
  case False
  with assms have x: "0 < x" by simp
  have "of_int 0 \<le> x / ulp x" using x ulp_pos [of x] by simp
  then have "0 \<le> roundTiesToEven (x / ulp x)" by (rule roundTiesToEven_ge)
  then show ?thesis using ulp_pos [of x] by (simp add: binary64_pos_eq [OF x])
qed

lemma binary64_upper:
  assumes "0 < x"
  shows "binary64 x \<le> 2 powi (max (exponentOf x) (- 1022) + 1)"
proof -
  let ?E = "max (exponentOf x) (- 1022)"
  define N :: int where "N = 2 ^ 53"
  define r where "r = roundTiesToEven (x / ulp x)"
  have e: "?E - 52 + int 53 = ?E + 1" by simp
  have t: "ulp x * of_int N = 2 powi (?E + 1)"
    unfolding N_def using ulp_times [of x 53] by (simp only: e)
  have "x < 2 powi (exponentOf x + 1)" using exponentOf_bounds [OF assms] by simp
  also have "\<dots> \<le> 2 powi (?E + 1)" by (intro power_int_increasing) simp_all
  finally have "x \<le> ulp x * of_int N" using t by linarith
  then have "x / ulp x \<le> of_int N"
    using ulp_pos [of x] by (simp add: pos_divide_le_eq mult.commute)
  then have "r \<le> N" unfolding r_def by (rule roundTiesToEven_le)
  then have "(of_int r :: real) \<le> of_int N" by (simp only: of_int_le_iff)
  then have "ulp x * of_int r \<le> ulp x * of_int N"
    using ulp_pos [of x] by (simp only: mult_le_cancel_left_pos)
  then show ?thesis
    unfolding binary64_pos_eq [OF assms] r_def [symmetric] t .
qed

lemma binary64_lower:
  assumes "0 < x" and "- 1022 \<le> exponentOf x"
  shows "2 powi (exponentOf x) \<le> binary64 x"
proof -
  define N :: int where "N = 2 ^ 52"
  define r where "r = roundTiesToEven (x / ulp x)"
  have E: "max (exponentOf x) (- 1022) = exponentOf x" using assms(2) by simp
  have e: "exponentOf x - 52 + int 52 = exponentOf x" by simp
  have t: "ulp x * of_int N = 2 powi (exponentOf x)"
    unfolding N_def using ulp_times [of x 52] by (simp only: E e)
  have "ulp x * of_int N \<le> x"
    using exponentOf_bounds [OF assms(1)] t by linarith
  then have "of_int N \<le> x / ulp x"
    using ulp_pos [of x] by (simp add: pos_le_divide_eq mult.commute)
  then have "N \<le> r" unfolding r_def by (rule roundTiesToEven_ge)
  then have "(of_int N :: real) \<le> of_int r" by (simp only: of_int_le_iff)
  then have "ulp x * of_int N \<le> ulp x * of_int r"
    using ulp_pos [of x] by (simp only: mult_le_cancel_left_pos)
  then show ?thesis
    unfolding binary64_pos_eq [OF assms(1)] r_def [symmetric] t .
qed

lemma binary64_mono_pos:
  assumes "0 < x" and "x \<le> y"
  shows "binary64 x \<le> binary64 y"
proof -
  have y: "0 < y" using assms by simp
  let ?Ex = "max (exponentOf x) (- 1022)"
  let ?Ey = "max (exponentOf y) (- 1022)"
  have le: "?Ex \<le> ?Ey" using exponentOf_mono [OF assms] by simp
  show ?thesis
  proof (cases "?Ex = ?Ey")
    case True
    then have u: "ulp x = ulp y" by (simp add: ulp_def)
    have "x / ulp y \<le> y / ulp y" using assms(2) ulp_pos [of y] by (simp add: field_simps)
    then have "roundTiesToEven (x / ulp y) \<le> roundTiesToEven (y / ulp y)"
      by (rule roundTiesToEven_mono)
    then have "(of_int (roundTiesToEven (x / ulp y)) :: real)
                 \<le> of_int (roundTiesToEven (y / ulp y))"
      by (simp only: of_int_le_iff)
    then have "ulp y * of_int (roundTiesToEven (x / ulp y))
                 \<le> ulp y * of_int (roundTiesToEven (y / ulp y))"
      using ulp_pos [of y] by simp
    then show ?thesis
      by (simp only: binary64_pos_eq [OF assms(1)] binary64_pos_eq [OF y] u)
  next
    case False
    with le have lt: "?Ex + 1 \<le> ?Ey" by simp
    then have ny: "- 1022 \<le> exponentOf y" "?Ey = exponentOf y" by simp_all
    have "binary64 x \<le> 2 powi (?Ex + 1)" using binary64_upper [OF assms(1)] .
    also have "\<dots> \<le> 2 powi ?Ey" using lt by (intro power_int_increasing) simp_all
    also have "\<dots> \<le> binary64 y" using binary64_lower [OF y ny(1)] ny(2) by simp
    finally show ?thesis .
  qed
qed

lemma binary64_mono:
  assumes "0 \<le> x" and "x \<le> y"
  shows "binary64 x \<le> binary64 y"
proof (cases "x = 0")
  case True
  then show ?thesis using binary64_nonneg [of y] assms by simp
next
  case False
  then show ?thesis using binary64_mono_pos [of x y] assms by simp
qed

text \<open>A positive value on the grid of its own unit in the last place is a binary64 number.\<close>

lemma binary64_exact:
  assumes "0 < z" and "z = ulp z * of_int m"
  shows "binary64 z = z"
proof -
  have "z / ulp z = of_int m" using assms(2) ulp_pos [of z] by (simp add: field_simps)
  then show ?thesis
    using assms by (simp add: binary64_pos_eq)
qed

lemma binary64_idem:
  assumes "0 \<le> x"
  shows "binary64 (binary64 x) = binary64 x"
proof (cases "binary64 x = 0")
  case True
  then show ?thesis by simp
next
  case False
  then have x: "0 < x" using assms by (cases "x = 0") simp_all
  define z where "z = binary64 x"
  define n where "n = roundTiesToEven (x / ulp x)"
  have z: "0 < z" using False binary64_nonneg [OF assms] by (simp add: z_def)
  have zn: "z = ulp x * of_int n" by (simp add: z_def n_def binary64_pos_eq [OF x])
  let ?Ex = "max (exponentOf x) (- 1022)"
  let ?Ez = "max (exponentOf z) (- 1022)"
  have up: "z \<le> 2 powi (?Ex + 1)" using binary64_upper [OF x] by (simp add: z_def)
  show ?thesis
  proof (cases "z = 2 powi (?Ex + 1)")
    case True
    have "exponentOf z = ?Ex + 1"
    proof (rule exponentOf_unique [OF z])
      show "2 powi (?Ex + 1) \<le> z" using True by simp
      have "(2::real) powi (?Ex + 1) < 2 powi (?Ex + 1 + 1)"
        by (intro power_int_strict_increasing) simp_all
      then show "z < 2 powi (?Ex + 1 + 1)" using True by simp
    qed
    then have Ez: "?Ez = ?Ex + 1" by simp
    define N :: int where "N = 2 ^ 52"
    have e: "?Ez - 52 + int 52 = ?Ez" by simp
    have "ulp z * of_int N = 2 powi ?Ez"
      unfolding N_def using ulp_times [of z 52] by (simp only: e)
    then have "z = ulp z * of_int N" using True Ez by simp
    then have "binary64 z = z" by (rule binary64_exact [OF z])
    then show ?thesis by (simp add: z_def)
  next
    case False
    with up have lt: "z < 2 powi (?Ex + 1)" by simp
    have "exponentOf z \<le> ?Ex"
    proof (rule ccontr)
      assume "\<not> exponentOf z \<le> ?Ex"
      then have "?Ex + 1 \<le> exponentOf z" by simp
      then have "(2::real) powi (?Ex + 1) \<le> 2 powi (exponentOf z)"
        by (intro power_int_increasing) simp_all
      also have "\<dots> \<le> z" using exponentOf_bounds [OF z] by simp
      finally show False using lt by simp
    qed
    then have Ez: "?Ez \<le> ?Ex" by simp
    define k where "k = nat (?Ex - ?Ez)"
    have "(2::real) powi (?Ex - 52) = 2 powi ((?Ez - 52) + int k)"
      using Ez by (simp add: k_def)
    also have "\<dots> = 2 powi (?Ez - 52) * 2 powi (int k)"
      by (rule power_int_add) simp
    finally have u: "ulp x = ulp z * 2 ^ k" by (simp add: ulp_def)
    have "z = ulp z * of_int (2 ^ k * n)" using zn u by simp
    then have "binary64 z = z" by (rule binary64_exact [OF z])
    then show ?thesis by (simp add: z_def)
  qed
qed

lemmas binary64_eval =
  binary64_def ulp_def exponentOf_def roundTiesToEven_def compute_bitlen Let_def

section \<open>The start offset\<close>

lemma getRandomStartPoint_100_half: "getRandomStartPoint 100 (1 / 2) = 50"
  by (simp add: getRandomStartPoint_def binary64_eval)

lemma getRandomStartPoint_100_last: "getRandomStartPoint 100 (1 - 1 / 2 ^ 53) = 75"
  by (simp add: getRandomStartPoint_def binary64_eval)

text \<open>
  Claim C6, as stated, puts the offset in the half-open interval from a quarter to three
  quarters of the duration, so below 75 at duration 100. The largest double below 1 is a
  random value the claim covers, and with it the offset at duration 100 is exactly 75:
  the product with the range 50 rounds to the double just below 50, and adding 25 is a
  tie that rounds to 75. At duration 0 the offset is 0 and the interval is empty.
\<close>

theorem getRandomStartPoint_reaches_upper_end:
  "(0::real) \<le> 100 \<and> (0::real) \<le> 1 - 1 / 2 ^ 53 \<and> (1 - 1 / 2 ^ 53 :: real) < 1 \<and>
   binary64 (1 - 1 / 2 ^ 53) = 1 - 1 / 2 ^ 53 \<and>
   getRandomStartPoint 100 (1 - 1 / 2 ^ 53) = 75 \<and>
   \<not> (getRandomStartPoint 100 (1 - 1 / 2 ^ 53) < 0.75 * 100) \<and>
   getRandomStartPoint 0 0 = 0 \<and>
   \<not> (getRandomStartPoint 0 0 < 0.75 * 0)"
proof -
  have r: "binary64 (1 - 1 / 2 ^ 53) = 1 - 1 / 2 ^ 53"
    by (simp add: binary64_eval)
  have z: "getRandomStartPoint 0 0 = 0"
    by (simp add: getRandomStartPoint_def Let_def)
  show ?thesis
    unfolding getRandomStartPoint_100_last z using r by simp
qed

text \<open>
  Claim C6, amended. For a duration \<open>d\<close> from 0 on and a random value \<open>r\<close> from 0 up to
  but not including 1, with every operation rounded to binary64, the start offset is
  \<open>startRange + r * range\<close> where \<open>startRange = d * 0.25\<close> and
  \<open>range = d * 0.75 - startRange\<close>. It lies between \<open>startRange\<close> and
  \<open>startRange + range\<close>, both included: between 25 and 75 at duration 100, where 75 is
  reached. It is 0 at duration 0.
\<close>

theorem getRandomStartPoint_closed_range:
  assumes "0 \<le> d" and "0 \<le> r" and "r < 1"
  shows "getRandomStartPoint d r
           = binary64 (binary64 (d * 0.25)
               + binary64 (r * binary64 (binary64 (d * 0.75) - binary64 (d * 0.25)))) \<and>
         binary64 (d * 0.25) \<le> getRandomStartPoint d r \<and>
         getRandomStartPoint d r
           \<le> binary64 (binary64 (d * 0.25)
                 + binary64 (binary64 (d * 0.75) - binary64 (d * 0.25))) \<and>
         (d = 100 \<longrightarrow> 25 \<le> getRandomStartPoint d r \<and> getRandomStartPoint d r \<le> 75) \<and>
         (d = 0 \<longrightarrow> getRandomStartPoint d r = 0)"
proof -
  define s where "s = binary64 (d * 0.25)"
  define e where "e = binary64 (d * 0.75)"
  define g where "g = binary64 (e - s)"
  define p where "p = binary64 (r * g)"
  have form: "getRandomStartPoint d r = binary64 (s + p)"
    by (simp add: getRandomStartPoint_def Let_def s_def e_def g_def p_def)
  have s0: "0 \<le> s" unfolding s_def using assms(1) by (intro binary64_nonneg) simp
  have se: "s \<le> e" unfolding s_def e_def using assms(1) by (intro binary64_mono) simp_all
  have g0: "0 \<le> g" unfolding g_def using se by (intro binary64_nonneg) simp
  have gg: "binary64 g = g" unfolding g_def using se by (intro binary64_idem) simp
  have ss: "binary64 s = s" unfolding s_def using assms(1) by (intro binary64_idem) simp
  have rg0: "0 \<le> r * g" using assms(2) g0 by simp
  have rg1: "r * g \<le> g" using assms(3) g0 mult_right_mono [of r 1 g] by simp
  have p0: "0 \<le> p" unfolding p_def using rg0 by (rule binary64_nonneg)
  have p1: "p \<le> g" using binary64_mono [OF rg0 rg1] gg by (simp add: p_def)
  have lo: "s \<le> binary64 (s + p)"
    using binary64_mono [of s "s + p"] s0 p0 ss by simp
  have hi: "binary64 (s + p) \<le> binary64 (s + g)"
    using s0 p0 p1 by (intro binary64_mono) simp_all
  have hundred: "25 \<le> getRandomStartPoint d r \<and> getRandomStartPoint d r \<le> 75" if "d = 100"
  proof -
    have "s = 25" unfolding s_def that by (simp add: binary64_eval)
    moreover have "binary64 (s + g) = 75"
      unfolding g_def e_def s_def that by (simp add: binary64_eval)
    ultimately show ?thesis using lo hi form by simp
  qed
  have zero: "getRandomStartPoint d r = 0" if "d = 0"
    unfolding that by (simp add: getRandomStartPoint_def Let_def)
  show ?thesis
    using form lo hi hundred zero unfolding p_def g_def e_def s_def by simp
qed

theorem getRandomStartPoint_closed_range_witness:
  "(0::real) \<le> 100 \<and> (0::real) \<le> 1 / 2 \<and> (1 / 2 :: real) < 1 \<and>
   getRandomStartPoint 100 (1 / 2) = 50 \<and>
   25 \<le> getRandomStartPoint 100 (1 / 2) \<and> getRandomStartPoint 100 (1 / 2) \<le> 75"
  using getRandomStartPoint_closed_range [of 100 "1 / 2"]
  by (simp add: getRandomStartPoint_100_half)

section \<open>The draw\<close>

lemma randomIndex_range:
  assumes "0 \<le> r" and "r < 1" and "0 < n"
  shows "0 \<le> randomIndex r n \<and> randomIndex r n < int n"
proof -
  have "0 \<le> r * real n" using assms by simp
  then have lo: "0 \<le> \<lfloor>r * real n\<rfloor>" by simp
  have "r * real n < 1 * real n"
    using assms by (intro mult_strict_right_mono) simp_all
  then have "r * real n < real_of_int (int n)" by simp
  then have hi: "\<lfloor>r * real n\<rfloor> < int n" by (simp only: floor_less_iff)
  show ?thesis using lo hi by (simp add: randomIndex_def)
qed

lemma elementAt_randomIndex:
  assumes "0 \<le> r" and "r < 1" and "pool \<noteq> []"
  shows "\<exists>k \<in> set pool. elementAt pool (randomIndex r (length pool)) = Some k"
proof -
  have "0 \<le> randomIndex r (length pool) \<and> randomIndex r (length pool) < int (length pool)"
    using assms by (intro randomIndex_range) simp_all
  then show ?thesis
    by (auto simp: elementAt_def)
qed

lemma elementAt_Some_mem: "elementAt xs i = Some k \<Longrightarrow> k \<in> set xs"
  by (auto simp: elementAt_def split: if_splits)

lemma getRandomUnusedTrack_fst:
  "fst (getRandomUnusedTrack r q) = tracksGet q (drawnTrackId r q)"
  by (auto simp: getRandomUnusedTrack_def getRandomTrack_def drawnTrackId_def Let_def
      tracksGet_def elementAt_def)

lemma getRandomUnusedTrack_snd:
  "snd (getRandomUnusedTrack r q) =
     (if filter (\<lambda>i. i \<notin> usedTrackIds q) (activeTrackIds q) = [] then q\<lparr>usedTrackIds := {}\<rparr> else q)"
  by (simp add: getRandomUnusedTrack_def Let_def)

lemma drawnTrackId_cases:
  assumes "0 \<le> r" and "r < 1"
  shows "(activeTrackIds q = [] \<longrightarrow> drawnTrackId r q = None) \<and>
         ((\<exists>i \<in> set (activeTrackIds q). i \<notin> usedTrackIds q) \<longrightarrow>
            (\<exists>k. drawnTrackId r q = Some k \<and> k \<in> set (activeTrackIds q) \<and> k \<notin> usedTrackIds q)) \<and>
         (activeTrackIds q \<noteq> [] \<and> (\<forall>i \<in> set (activeTrackIds q). i \<in> usedTrackIds q) \<longrightarrow>
            (\<exists>k. drawnTrackId r q = Some k \<and> k \<in> set (activeTrackIds q)))"
proof (intro conjI impI)
  assume "activeTrackIds q = []"
  then show "drawnTrackId r q = None"
    by (simp add: drawnTrackId_def elementAt_def)
next
  assume ex: "\<exists>i \<in> set (activeTrackIds q). i \<notin> usedTrackIds q"
  let ?u = "filter (\<lambda>i. i \<notin> usedTrackIds q) (activeTrackIds q)"
  from ex have ne: "?u \<noteq> []" by (auto simp: filter_empty_conv)
  from elementAt_randomIndex [OF assms ne]
  obtain k where k: "k \<in> set ?u" "elementAt ?u (randomIndex r (length ?u)) = Some k"
    by blast
  from ne k show "\<exists>k. drawnTrackId r q = Some k \<and> k \<in> set (activeTrackIds q) \<and> k \<notin> usedTrackIds q"
    by (auto simp: drawnTrackId_def Let_def)
next
  assume a: "activeTrackIds q \<noteq> [] \<and> (\<forall>i \<in> set (activeTrackIds q). i \<in> usedTrackIds q)"
  then have e: "filter (\<lambda>i. i \<notin> usedTrackIds q) (activeTrackIds q) = []"
    by (auto simp: filter_empty_conv)
  from a elementAt_randomIndex [OF assms, of "activeTrackIds q"]
  obtain k where "k \<in> set (activeTrackIds q)"
    "elementAt (activeTrackIds q) (randomIndex r (length (activeTrackIds q))) = Some k"
    by blast
  with e show "\<exists>k. drawnTrackId r q = Some k \<and> k \<in> set (activeTrackIds q)"
    by (auto simp: drawnTrackId_def Let_def)
qed

lemma drawnTrackId_mem: "drawnTrackId r q = Some k \<Longrightarrow> k \<in> set (activeTrackIds q)"
  by (auto simp: drawnTrackId_def Let_def dest!: elementAt_Some_mem split: if_splits)

lemma drawnTrackId_unused:
  "drawnTrackId r q = Some k \<Longrightarrow> k \<in> usedTrackIds q \<Longrightarrow>
   filter (\<lambda>i. i \<notin> usedTrackIds q) (activeTrackIds q) = []"
  by (auto simp: drawnTrackId_def Let_def dest!: elementAt_Some_mem split: if_splits)

lemma map_of_mapSet: "map_of (mapSet m k v) = (map_of m)(k \<mapsto> v)"
  by (induction m) auto

lemma mapSet_keyed:
  assumes "\<forall>k t. map_of m k = Some t \<longrightarrow> id_track t = k"
  shows "\<forall>k t. map_of (mapSet m (id_track u) u) k = Some t \<longrightarrow> id_track t = k"
proof (intro allI impI)
  fix k t
  assume a: "map_of (mapSet m (id_track u) u) k = Some t"
  show "id_track t = k"
  proof (cases "k = id_track u")
    case True
    then have "t = u" using a by (simp add: map_of_mapSet)
    then show ?thesis by (simp add: True)
  next
    case False
    then have "map_of m k = Some t" using a by (simp add: map_of_mapSet)
    then show ?thesis using assms by blast
  qed
qed

lemma collectTracks_keyed_acc:
  assumes "\<forall>k t. map_of m k = Some t \<longrightarrow> id_track t = k"
  shows "\<forall>k t. map_of (foldl (\<lambda>m t. mapSet m (id_track t) t) m ts) k = Some t \<longrightarrow> id_track t = k"
  using assms
proof (induction ts arbitrary: m)
  case Nil
  then show ?case by (simp only: foldl_Nil)
next
  case (Cons u us)
  show ?case
    unfolding foldl_Cons by (rule Cons.IH [OF mapSet_keyed [OF Cons.prems]])
qed

lemma collectTracks_keyed:
  assumes "map_of (collectTracks ts) k = Some t"
  shows "id_track t = k"
proof -
  have "\<forall>k t. map_of ([] :: (string \<times> Track) list) k = Some t \<longrightarrow> id_track t = k"
    by simp
  from collectTracks_keyed_acc [OF this, of ts] assms show ?thesis
    unfolding collectTracks_def by blast
qed

lemma keyedById_ingested:
  "keyedById (setPlaylistFilter p (newQuizEngine (collectTracks ts)))"
proof -
  have tr: "tracks (setPlaylistFilter p (newQuizEngine (collectTracks ts))) = collectTracks ts"
    by (cases p) (simp_all add: setPlaylistFilter_def reset_def stop_def newQuizEngine_def)
  show ?thesis
    unfolding keyedById_def tr
  proof (intro ballI allI impI)
    fix k t
    assume "map_of (collectTracks ts) k = Some t"
    then show "id_track t = k" by (rule collectTracks_keyed)
  qed
qed

lemma drawn_track_id:
  assumes "keyedById q" and "fst (getRandomUnusedTrack r q) = Some t"
  shows "drawnTrackId r q = Some (id_track t)"
proof -
  have "tracksGet q (drawnTrackId r q) = Some t"
    using assms(2) by (simp add: getRandomUnusedTrack_fst)
  then obtain k where k: "drawnTrackId r q = Some k" "map_of (tracks q) k = Some t"
    by (auto simp: tracksGet_def split: option.splits)
  have "k \<in> set (activeTrackIds q)" using k(1) by (rule drawnTrackId_mem)
  then have "id_track t = k" using assms(1) k(2) by (auto simp: keyedById_def)
  then show ?thesis using k(1) by simp
qed

lemma drawSequence_Cons:
  "\<exists>q'. drawSequence (r # rs) q
           = map_option id_track (fst (getRandomUnusedTrack r q)) # drawSequence rs q' \<and>
        tracks q' = tracks q \<and> activeTrackIds q' = activeTrackIds q \<and>
        usedTrackIds q'
          = usedTrackIds (snd (getRandomUnusedTrack r q))
              \<union> Option.these {map_option id_track (fst (getRandomUnusedTrack r q))}"
proof (cases "getRandomUnusedTrack r q")
  case (Pair res q1)
  have fr: "tracks q1 = tracks q \<and> activeTrackIds q1 = activeTrackIds q"
    using getRandomUnusedTrack_snd [of r q] Pair by (auto split: if_splits)
  show ?thesis
  proof (cases res)
    case None
    with Pair fr show ?thesis by (intro exI [of _ q1]) simp
  next
    case (Some t)
    with Pair fr show ?thesis
      by (intro exI [of _ "q1\<lparr>usedTrackIds := insert (id_track t) (usedTrackIds q1)\<rparr>"]) simp
  qed
qed

lemma keyedById_cong:
  "tracks q' = tracks q \<Longrightarrow> activeTrackIds q' = activeTrackIds q \<Longrightarrow> keyedById q' = keyedById q"
  by (simp add: keyedById_def)

lemma drawSequence_length: "length (drawSequence rs q) = length rs"
proof (induction rs arbitrary: q)
  case Nil
  then show ?case by simp
next
  case (Cons r rs)
  from drawSequence_Cons [of r rs q] obtain q' where
    "drawSequence (r # rs) q
       = map_option id_track (fst (getRandomUnusedTrack r q)) # drawSequence rs q'"
    by blast
  then show ?case using Cons.IH [of q'] by simp
qed

text \<open>An id that is already used is returned again only after all active ids were used.\<close>

lemma drawSequence_used_again:
  assumes "keyedById q"
  shows "m < length (drawSequence rs q) \<Longrightarrow> drawSequence rs q ! m = Some x \<Longrightarrow>
         x \<in> usedTrackIds q \<Longrightarrow>
         set (activeTrackIds q)
           \<subseteq> usedTrackIds q \<union> Option.these (set (take m (drawSequence rs q)))"
  using assms
proof (induction rs arbitrary: q m)
  case Nil
  then show ?case by simp
next
  case (Cons r rs)
  let ?u = "filter (\<lambda>i. i \<notin> usedTrackIds q) (activeTrackIds q)"
  let ?h = "map_option id_track (fst (getRandomUnusedTrack r q))"
  from drawSequence_Cons [of r rs q] obtain q' where
    ds: "drawSequence (r # rs) q = ?h # drawSequence rs q'"
    and fr: "tracks q' = tracks q" "activeTrackIds q' = activeTrackIds q"
    and us: "usedTrackIds q' = usedTrackIds (snd (getRandomUnusedTrack r q)) \<union> Option.these {?h}"
    by blast
  show ?case
  proof (cases "?u = []")
    case True
    then have "set (activeTrackIds q) \<subseteq> usedTrackIds q"
      by (auto simp: filter_empty_conv)
    then show ?thesis by blast
  next
    case False
    then have q1: "snd (getRandomUnusedTrack r q) = q"
      by (simp add: getRandomUnusedTrack_snd)
    show ?thesis
    proof (cases m)
      case 0
      then have "?h = Some x" using Cons.prems(2) unfolding ds by simp
      then obtain t where t: "fst (getRandomUnusedTrack r q) = Some t" "id_track t = x"
        by (cases "fst (getRandomUnusedTrack r q)") auto
      have "drawnTrackId r q = Some x"
        using drawn_track_id [OF Cons.prems(4) t(1)] t(2) by simp
      from drawnTrackId_unused [OF this Cons.prems(3)] False show ?thesis by simp
    next
      case (Suc m')
      have len: "m' < length (drawSequence rs q')"
        using Cons.prems(1) unfolding ds Suc by simp
      have nth: "drawSequence rs q' ! m' = Some x"
        using Cons.prems(2) unfolding ds Suc by simp
      have mem: "x \<in> usedTrackIds q'"
        using Cons.prems(3) us q1 by simp
      have kb: "keyedById q'"
        using Cons.prems(4) keyedById_cong [OF fr] by simp
      from Cons.IH [OF len nth mem kb]
      have "set (activeTrackIds q)
              \<subseteq> usedTrackIds q \<union> Option.these {?h}
                  \<union> Option.these (set (take m' (drawSequence rs q')))"
        using fr us q1 by simp
      also have "\<dots> = usedTrackIds q
                       \<union> Option.these (set (take m (drawSequence (r # rs) q)))"
        unfolding ds Suc by (auto simp: in_these_eq)
      finally show ?thesis .
    qed
  qed
qed

lemma usedTrackIds_draw_subset:
  "usedTrackIds (snd (getRandomUnusedTrack r q)) \<subseteq> usedTrackIds q"
  by (simp add: getRandomUnusedTrack_snd)

lemma drawSequence_no_repeat:
  assumes "keyedById q"
  shows "i < j \<Longrightarrow> j < length (drawSequence rs q) \<Longrightarrow>
         drawSequence rs q ! i = Some x \<Longrightarrow> drawSequence rs q ! j = Some x \<Longrightarrow>
         set (activeTrackIds q)
           \<subseteq> usedTrackIds q \<union> Option.these (set (take j (drawSequence rs q)))"
  using assms
proof (induction rs arbitrary: q i j)
  case Nil
  then show ?case by simp
next
  case (Cons r rs)
  let ?h = "map_option id_track (fst (getRandomUnusedTrack r q))"
  from drawSequence_Cons [of r rs q] obtain q' where
    ds: "drawSequence (r # rs) q = ?h # drawSequence rs q'"
    and fr: "tracks q' = tracks q" "activeTrackIds q' = activeTrackIds q"
    and us: "usedTrackIds q' = usedTrackIds (snd (getRandomUnusedTrack r q)) \<union> Option.these {?h}"
    by blast
  let ?ds' = "drawSequence rs q'"
  have kb: "keyedById q'"
    using Cons.prems(5) keyedById_cong [OF fr] by simp
  have sub: "usedTrackIds q' \<subseteq> usedTrackIds q \<union> Option.these {?h}"
    using us usedTrackIds_draw_subset [of r q] by auto
  from Cons.prems(1) obtain j' where j: "j = Suc j'" by (cases j) auto
  have len: "j' < length ?ds'" using Cons.prems(2) unfolding ds j by simp
  have nj: "?ds' ! j' = Some x" using Cons.prems(4) unfolding ds j by simp
  have "set (activeTrackIds q') \<subseteq> usedTrackIds q' \<union> Option.these (set (take j' ?ds'))"
  proof (cases i)
    case 0
    have hx: "?h = Some x" using Cons.prems(3) unfolding ds 0 by simp
    have "x \<in> usedTrackIds q'" unfolding us hx by simp
    then show ?thesis using drawSequence_used_again [OF kb len nj] by blast
  next
    case (Suc i')
    have "i' < j'" using Cons.prems(1) j Suc by simp
    moreover have "?ds' ! i' = Some x" using Cons.prems(3) unfolding ds Suc by simp
    ultimately show ?thesis using Cons.IH [OF _ len _ nj kb] by blast
  qed
  then have "set (activeTrackIds q)
               \<subseteq> usedTrackIds q \<union> Option.these {?h} \<union> Option.these (set (take j' ?ds'))"
    using sub fr by auto
  also have "\<dots> = usedTrackIds q \<union> Option.these (set (take j (drawSequence (r # rs) q)))"
    unfolding ds j by (auto simp: in_these_eq)
  finally show ?case .
qed

lemma sample_draws:
  "drawSequence [0, 1 / 2, 0, 9 / 10, 0] (newQuizEngine sampleLibrary)
     = [Some ''A'', Some ''C'', Some ''B'', Some ''C'', Some ''A'']"
  by (simp add: newQuizEngine_def sampleLibrary_def sampleTrack_def getRandomUnusedTrack_def
      getRandomTrack_def tracksGet_def elementAt_def randomIndex_def)

lemma sample_keyed: "keyedById (newQuizEngine sampleLibrary)"
  by (simp add: keyedById_def newQuizEngine_def sampleLibrary_def sampleTrack_def)

text \<open>
  Claim C1, as stated, has the draw return an unused active id whenever there is one, and
  has no id returned twice before every active id was returned. With the active ids
  \<open>X\<close>, \<open>A\<close>, none used and \<open>X\<close> without entry in the track map, the draw at random value 0
  returns nothing. On a track map whose keys are not the ids of its tracks, two draws
  return the id \<open>T\<close> twice while the other track is never returned.
\<close>

theorem getRandomUnusedTrack_absent_or_repeated:
  "(0::real) \<le> 0 \<and> (0::real) < 1 \<and>
   activeTrackIds (setPlaylistFilter (Some danglingPlaylist) (newQuizEngine sampleLibrary))
     = [''X'', ''A''] \<and>
   usedTrackIds (setPlaylistFilter (Some danglingPlaylist) (newQuizEngine sampleLibrary)) = {} \<and>
   fst (getRandomUnusedTrack 0
          (setPlaylistFilter (Some danglingPlaylist) (newQuizEngine sampleLibrary))) = None \<and>
   activeTrackIds (newQuizEngine unkeyedLibrary) = [''K'', ''L''] \<and>
   usedTrackIds (newQuizEngine unkeyedLibrary) = {} \<and>
   drawSequence [0, 0] (newQuizEngine unkeyedLibrary) = [Some ''T'', Some ''T'']"
  by (simp add: setPlaylistFilter_def reset_def stop_def newQuizEngine_def danglingPlaylist_def
      sampleLibrary_def unkeyedLibrary_def sampleTrack_def getRandomUnusedTrack_def
      getRandomTrack_def tracksGet_def elementAt_def randomIndex_def)

text \<open>
  Claim C1, amended. For a random value from 0 up to but not including 1: with no active
  id the draw returns nothing; when some active id is unused, the draw picks an active id
  that is not used and leaves the used ids as they are; when the active ids are not empty
  and all used, the draw clears the used ids and picks an active id. In both cases it
  returns the track stored under the picked id, and nothing when the track map has no
  entry for it. When the tracks are stored under their own ids, as both ingestion paths
  store them, a returned track has the picked id, and in repeated draws that mark each
  returned track's id as used an id is returned a second time only after every active id
  has been returned or was used before the first draw (none is after a reset).
\<close>

theorem getRandomUnusedTrack_draw:
  assumes "0 \<le> r" and "r < 1"
  shows "(activeTrackIds q = [] \<longrightarrow> fst (getRandomUnusedTrack r q) = None) \<and>
         ((\<exists>i \<in> set (activeTrackIds q). i \<notin> usedTrackIds q) \<longrightarrow>
            (\<exists>k. drawnTrackId r q = Some k \<and> k \<in> set (activeTrackIds q) \<and>
                 k \<notin> usedTrackIds q \<and>
                 fst (getRandomUnusedTrack r q) = map_of (tracks q) k) \<and>
            snd (getRandomUnusedTrack r q) = q) \<and>
         (activeTrackIds q \<noteq> [] \<and> (\<forall>i \<in> set (activeTrackIds q). i \<in> usedTrackIds q) \<longrightarrow>
            (\<exists>k. drawnTrackId r q = Some k \<and> k \<in> set (activeTrackIds q) \<and>
                 fst (getRandomUnusedTrack r q) = map_of (tracks q) k) \<and>
            snd (getRandomUnusedTrack r q) = q\<lparr>usedTrackIds := {}\<rparr>) \<and>
         (keyedById q \<longrightarrow>
            (\<forall>t. fst (getRandomUnusedTrack r q) = Some t \<longrightarrow>
                 drawnTrackId r q = Some (id_track t) \<and>
                 id_track t \<in> set (activeTrackIds q) \<and>
                 ((\<exists>i \<in> set (activeTrackIds q). i \<notin> usedTrackIds q) \<longrightarrow>
                    id_track t \<notin> usedTrackIds q))) \<and>
         (keyedById q \<longrightarrow>
            (\<forall>i j x. i < j \<and> j < length (drawSequence rs q) \<and>
                   drawSequence rs q ! i = Some x \<and> drawSequence rs q ! j = Some x \<longrightarrow>
                   set (activeTrackIds q)
                     \<subseteq> usedTrackIds q \<union> Option.these (set (take j (drawSequence rs q))))) \<and>
         length (drawSequence rs q) = length rs \<and>
         (\<forall>ts p. keyedById (setPlaylistFilter p (newQuizEngine (collectTracks ts))))"
proof -
  have c1: "activeTrackIds q = [] \<Longrightarrow> fst (getRandomUnusedTrack r q) = None"
    using drawnTrackId_cases [OF assms, of q]
    by (simp add: getRandomUnusedTrack_fst tracksGet_def)
  have c2: "\<exists>k. drawnTrackId r q = Some k \<and> k \<in> set (activeTrackIds q) \<and>
                 k \<notin> usedTrackIds q \<and>
                 fst (getRandomUnusedTrack r q) = map_of (tracks q) k"
    if "\<exists>i \<in> set (activeTrackIds q). i \<notin> usedTrackIds q"
    using that drawnTrackId_cases [OF assms, of q]
    by (auto simp: getRandomUnusedTrack_fst tracksGet_def)
  have c2': "snd (getRandomUnusedTrack r q) = q"
    if "\<exists>i \<in> set (activeTrackIds q). i \<notin> usedTrackIds q"
    using that by (auto simp: getRandomUnusedTrack_snd filter_empty_conv)
  have c3: "\<exists>k. drawnTrackId r q = Some k \<and> k \<in> set (activeTrackIds q) \<and>
                 fst (getRandomUnusedTrack r q) = map_of (tracks q) k"
    if "activeTrackIds q \<noteq> [] \<and> (\<forall>i \<in> set (activeTrackIds q). i \<in> usedTrackIds q)"
    using that drawnTrackId_cases [OF assms, of q]
    by (auto simp: getRandomUnusedTrack_fst tracksGet_def)
  have c3': "snd (getRandomUnusedTrack r q) = q\<lparr>usedTrackIds := {}\<rparr>"
    if "activeTrackIds q \<noteq> [] \<and> (\<forall>i \<in> set (activeTrackIds q). i \<in> usedTrackIds q)"
    using that by (auto simp: getRandomUnusedTrack_snd filter_empty_conv)
  have c4: "drawnTrackId r q = Some (id_track t) \<and>
            id_track t \<in> set (activeTrackIds q) \<and>
            ((\<exists>i \<in> set (activeTrackIds q). i \<notin> usedTrackIds q) \<longrightarrow>
               id_track t \<notin> usedTrackIds q)"
    if kb: "keyedById q" and f: "fst (getRandomUnusedTrack r q) = Some t" for t
  proof -
    have d: "drawnTrackId r q = Some (id_track t)" using drawn_track_id [OF kb f] .
    have m: "id_track t \<in> set (activeTrackIds q)" using d by (rule drawnTrackId_mem)
    have u: "id_track t \<notin> usedTrackIds q"
      if "\<exists>i \<in> set (activeTrackIds q). i \<notin> usedTrackIds q"
    proof
      assume "id_track t \<in> usedTrackIds q"
      from drawnTrackId_unused [OF d this] that show False
        by (auto simp: filter_empty_conv)
    qed
    show ?thesis using d m u by blast
  qed
  have c5: "set (activeTrackIds q)
              \<subseteq> usedTrackIds q \<union> Option.these (set (take j (drawSequence rs q)))"
    if "keyedById q" and "i < j \<and> j < length (drawSequence rs q) \<and>
         drawSequence rs q ! i = Some x \<and> drawSequence rs q ! j = Some x" for i j x
    using that drawSequence_no_repeat [of q i j rs x] by blast
  have c6: "length (drawSequence rs q) = length rs" by (rule drawSequence_length)
  have c7: "keyedById (setPlaylistFilter p (newQuizEngine (collectTracks ts)))" for ts p
    by (rule keyedById_ingested)
  have a1: "activeTrackIds q = [] \<longrightarrow> fst (getRandomUnusedTrack r q) = None"
    using c1 by blast
  have a2: "(\<exists>i \<in> set (activeTrackIds q). i \<notin> usedTrackIds q) \<longrightarrow>
            (\<exists>k. drawnTrackId r q = Some k \<and> k \<in> set (activeTrackIds q) \<and>
                 k \<notin> usedTrackIds q \<and>
                 fst (getRandomUnusedTrack r q) = map_of (tracks q) k) \<and>
            snd (getRandomUnusedTrack r q) = q"
    using c2 c2' by blast
  have a3: "activeTrackIds q \<noteq> [] \<and> (\<forall>i \<in> set (activeTrackIds q). i \<in> usedTrackIds q) \<longrightarrow>
            (\<exists>k. drawnTrackId r q = Some k \<and> k \<in> set (activeTrackIds q) \<and>
                 fst (getRandomUnusedTrack r q) = map_of (tracks q) k) \<and>
            snd (getRandomUnusedTrack r q) = q\<lparr>usedTrackIds := {}\<rparr>"
    using c3 c3' by blast
  have a4: "keyedById q \<longrightarrow>
            (\<forall>t. fst (getRandomUnusedTrack r q) = Some t \<longrightarrow>
                 drawnTrackId r q = Some (id_track t) \<and>
                 id_track t \<in> set (activeTrackIds q) \<and>
                 ((\<exists>i \<in> set (activeTrackIds q). i \<notin> usedTrackIds q) \<longrightarrow>
                    id_track t \<notin> usedTrackIds q))"
    using c4 by blast
  have a5: "keyedById q \<longrightarrow>
            (\<forall>i j x. i < j \<and> j < length (drawSequence rs q) \<and>
                   drawSequence rs q ! i = Some x \<and> drawSequence rs q ! j = Some x \<longrightarrow>
                   set (activeTrackIds q)
                     \<subseteq> usedTrackIds q \<union> Option.these (set (take j (drawSequence rs q))))"
    using c5 by blast
  have a7: "\<forall>ts p. keyedById (setPlaylistFilter p (newQuizEngine (collectTracks ts)))"
    using c7 by blast
  show ?thesis
    by (intro conjI a1 a2 a3 a4 a5 c6 a7)
qed

theorem getRandomUnusedTrack_draw_witness:
  "(0::real) \<le> 1 / 2 \<and> (1 / 2 :: real) < 1 \<and>
   fst (getRandomUnusedTrack (1 / 2) (newQuizEngine [])) = None \<and>
   fst (getRandomUnusedTrack (1 / 2) ((newQuizEngine sampleLibrary)\<lparr>usedTrackIds := {''A''}\<rparr>))
     = Some (sampleTrack ''C'') \<and>
   snd (getRandomUnusedTrack (1 / 2) ((newQuizEngine sampleLibrary)\<lparr>usedTrackIds := {''A''}\<rparr>))
     = (newQuizEngine sampleLibrary)\<lparr>usedTrackIds := {''A''}\<rparr> \<and>
   fst (getRandomUnusedTrack (1 / 2)
          ((newQuizEngine sampleLibrary)\<lparr>usedTrackIds := {''A'', ''B'', ''C''}\<rparr>))
     = Some (sampleTrack ''B'') \<and>
   snd (getRandomUnusedTrack (1 / 2)
          ((newQuizEngine sampleLibrary)\<lparr>usedTrackIds := {''A'', ''B'', ''C''}\<rparr>))
     = (newQuizEngine sampleLibrary)\<lparr>usedTrackIds := {}\<rparr> \<and>
   keyedById (newQuizEngine sampleLibrary) \<and>
   drawSequence [0, 1 / 2, 0, 9 / 10, 0] (newQuizEngine sampleLibrary)
     = [Some ''A'', Some ''C'', Some ''B'', Some ''C'', Some ''A''] \<and>
   set (activeTrackIds (newQuizEngine sampleLibrary))
     \<subseteq> usedTrackIds (newQuizEngine sampleLibrary)
        \<union> Option.these
            (set (take 3 (drawSequence [0, 1 / 2, 0, 9 / 10, 0] (newQuizEngine sampleLibrary))))"
proof -
  have r: "(0::real) \<le> 1 / 2" "(1 / 2 :: real) < 1" by simp_all
  note T0 = getRandomUnusedTrack_draw [OF r, of "newQuizEngine []" "[]"]
  note T1 = getRandomUnusedTrack_draw
              [OF r, of "(newQuizEngine sampleLibrary)\<lparr>usedTrackIds := {''A''}\<rparr>" "[]"]
  note T3 = getRandomUnusedTrack_draw
              [OF r, of "(newQuizEngine sampleLibrary)\<lparr>usedTrackIds := {''A'', ''B'', ''C''}\<rparr>" "[]"]
  note TS = getRandomUnusedTrack_draw
              [OF r, of "newQuizEngine sampleLibrary" "[0, 1 / 2, 0, 9 / 10, 0]"]
  have e: "activeTrackIds (newQuizEngine []) = []" by (simp add: newQuizEngine_def)
  have none: "fst (getRandomUnusedTrack (1 / 2) (newQuizEngine [])) = None"
    by (rule T0 [THEN conjunct1, rule_format, OF e])
  have unused: "\<exists>i \<in> set (activeTrackIds ((newQuizEngine sampleLibrary)\<lparr>usedTrackIds := {''A''}\<rparr>)).
                  i \<notin> usedTrackIds ((newQuizEngine sampleLibrary)\<lparr>usedTrackIds := {''A''}\<rparr>)"
    by (simp add: newQuizEngine_def sampleLibrary_def)
  have keep: "snd (getRandomUnusedTrack (1 / 2)
                     ((newQuizEngine sampleLibrary)\<lparr>usedTrackIds := {''A''}\<rparr>))
                = (newQuizEngine sampleLibrary)\<lparr>usedTrackIds := {''A''}\<rparr>"
    by (rule T1 [THEN conjunct2, THEN conjunct1, rule_format, OF unused, THEN conjunct2])
  have allused: "activeTrackIds ((newQuizEngine sampleLibrary)\<lparr>usedTrackIds := {''A'', ''B'', ''C''}\<rparr>) \<noteq> [] \<and>
       (\<forall>i \<in> set (activeTrackIds ((newQuizEngine sampleLibrary)\<lparr>usedTrackIds := {''A'', ''B'', ''C''}\<rparr>)).
          i \<in> usedTrackIds ((newQuizEngine sampleLibrary)\<lparr>usedTrackIds := {''A'', ''B'', ''C''}\<rparr>))"
    by (simp add: newQuizEngine_def sampleLibrary_def)
  have wrap: "snd (getRandomUnusedTrack (1 / 2)
                     ((newQuizEngine sampleLibrary)\<lparr>usedTrackIds := {''A'', ''B'', ''C''}\<rparr>))
                = (newQuizEngine sampleLibrary)\<lparr>usedTrackIds := {''A'', ''B'', ''C''}, usedTrackIds := {}\<rparr>"
    by (rule T3 [THEN conjunct2, THEN conjunct2, THEN conjunct1, rule_format, OF allused,
                 THEN conjunct2])
  have again: "set (activeTrackIds (newQuizEngine sampleLibrary))
     \<subseteq> usedTrackIds (newQuizEngine sampleLibrary)
        \<union> Option.these
            (set (take 3 (drawSequence [0, 1 / 2, 0, 9 / 10, 0] (newQuizEngine sampleLibrary))))"
  proof -
    have "(1::nat) < 3 \<and> 3 < length (drawSequence [0, 1 / 2, 0, 9 / 10, 0] (newQuizEngine sampleLibrary)) \<and>
          drawSequence [0, 1 / 2, 0, 9 / 10, 0] (newQuizEngine sampleLibrary) ! 1 = Some ''C'' \<and>
          drawSequence [0, 1 / 2, 0, 9 / 10, 0] (newQuizEngine sampleLibrary) ! 3 = Some ''C''"
      unfolding sample_draws by simp
    then show ?thesis
      by (rule TS [THEN conjunct2, THEN conjunct2, THEN conjunct2, THEN conjunct2,
                   THEN conjunct1, rule_format, OF sample_keyed])
  qed
  have vals: "fst (getRandomUnusedTrack (1 / 2) ((newQuizEngine sampleLibrary)\<lparr>usedTrackIds := {''A''}\<rparr>))
                = Some (sampleTrack ''C'') \<and>
              fst (getRandomUnusedTrack (1 / 2)
                     ((newQuizEngine sampleLibrary)\<lparr>usedTrackIds := {''A'', ''B'', ''C''}\<rparr>))
                = Some (sampleTrack ''B'')"
    by (simp add: newQuizEngine_def sampleLibrary_def getRandomUnusedTrack_def
        getRandomTrack_def tracksGet_def elementAt_def randomIndex_def)
  have wrap': "snd (getRandomUnusedTrack (1 / 2)
                     ((newQuizEngine sampleLibrary)\<lparr>usedTrackIds := {''A'', ''B'', ''C''}\<rparr>))
                = (newQuizEngine sampleLibrary)\<lparr>usedTrackIds := {}\<rparr>"
    using wrap by simp
  show ?thesis
    by (intro conjI r none keep wrap' again sample_keyed sample_draws)
       (simp_all add: vals)
qed

section \<open>The retry loop of nextTrack\<close>

lemma attempt_Continue_iff:
  "attempt e q = Continue q' \<longleftrightarrow>
     (\<exists>t q1. getRandomUnusedTrack (randomDraw e) q = (Some t, q1) \<and>
        ((\<not> fileExists e (location t) \<and>
          q' = q1\<lparr>usedTrackIds := insert (id_track t) (usedTrackIds q1)\<rparr>) \<or>
         (fileExists e (location t) \<and> loadedmetadata e (location t) = None \<and>
          q' = q1\<lparr>playbackState :=
                    \<lparr>isPlaying = False, currentTime = 0, duration_ps = 0,
                     startOffset = getRandomStartPoint (duration t) (randomStart e),
                     maxPlayTime = 30\<rparr>,
                  usedTrackIds := insert (id_track t) (usedTrackIds q1)\<rparr>)))"
  by (cases "getRandomUnusedTrack (randomDraw e) q")
     (auto simp: attempt_def checkTrackExists_def load_def stop_def Let_def
           split: option.splits)

lemma attempt_Return_iff:
  "attempt e q = Return q' \<longleftrightarrow>
     (\<exists>res q1. getRandomUnusedTrack (randomDraw e) q = (res, q1) \<and>
        (case res of
           None \<Rightarrow> q' = q1\<lparr>error := Some ''No tracks available'', isLoading := False\<rparr>
         | Some t \<Rightarrow>
             fileExists e (location t) \<and>
             (\<exists>d. loadedmetadata e (location t) = Some d \<and>
                q' = play e (q1\<lparr>playbackState :=
                    \<lparr>isPlaying = False, currentTime = 0, duration_ps = d,
                     startOffset = getRandomStartPoint (duration t) (randomStart e),
                     maxPlayTime = 30\<rparr>,
                  currentTrack := Some t, isRevealed := False,
                  usedTrackIds := insert (id_track t) (usedTrackIds q1),
                  isLoading := False\<rparr>))))"
  by (cases "getRandomUnusedTrack (randomDraw e) q")
     (auto simp: attempt_def checkTrackExists_def load_def stop_def Let_def
           split: option.splits)

lemma nextTrack_loop_prefix:
  assumes "k \<le> maxAttempts"
    and "\<forall>j<k. \<exists>q'. attempt (envs j) (loopStateAt envs q j) = Continue q'"
  shows "nextTrack_loop 0 envs q = nextTrack_loop k envs (loopStateAt envs q k)"
  using assms
proof (induction k)
  case 0
  then show ?case by simp
next
  case (Suc k)
  then have IH: "nextTrack_loop 0 envs q = nextTrack_loop k envs (loopStateAt envs q k)"
    by simp
  from Suc.prems obtain q' where q': "attempt (envs k) (loopStateAt envs q k) = Continue q'"
    by blast
  have "k < maxAttempts" using Suc.prems by simp
  then have "nextTrack_loop k envs (loopStateAt envs q k) = nextTrack_loop (Suc k) envs q'"
    using q' by (subst nextTrack_loop.simps) simp
  then show ?case using IH q' by simp
qed





lemma attempt_frame:
  assumes "attempt e q = Continue q' \<or> attempt e q = Return q'"
  shows "tracks q' = tracks q \<and> activeTrackIds q' = activeTrackIds q"
proof -
  have snd_eq: "q1 = snd (getRandomUnusedTrack (randomDraw e) q)"
    if "getRandomUnusedTrack (randomDraw e) q = (res, q1)" for res q1
    using that by simp
  have fr: "tracks (snd (getRandomUnusedTrack r q)) = tracks q \<and>
            activeTrackIds (snd (getRandomUnusedTrack r q)) = activeTrackIds q" for r
    by (simp add: getRandomUnusedTrack_snd)
  from assms show ?thesis
  proof
    assume "attempt e q = Continue q'"
    then show ?thesis
      using fr [of "randomDraw e"] by (auto simp: attempt_Continue_iff)
  next
    assume "attempt e q = Return q'"
    then show ?thesis
      using fr [of "randomDraw e"]
      by (auto simp: attempt_Return_iff play_def split: option.splits)
  qed
qed

lemma loopStateAt_frame:
  "tracks (loopStateAt envs q k) = tracks q \<and>
   activeTrackIds (loopStateAt envs q k) = activeTrackIds q"
proof (induction k)
  case 0
  then show ?case by simp
next
  case (Suc k)
  show ?case
  proof (cases "attempt (envs k) (loopStateAt envs q k)")
    case (Return q')
    then show ?thesis using attempt_frame [of "envs k" "loopStateAt envs q k" q'] Suc by simp
  next
    case (Continue q')
    then show ?thesis using attempt_frame [of "envs k" "loopStateAt envs q k" q'] Suc by simp
  qed
qed

lemma loopStateAt_cong:
  "(\<forall>j<k. envs' j = envs j) \<Longrightarrow> loopStateAt envs' q k = loopStateAt envs q k"
  by (induction k) simp_all

lemma nextTrack_begin_frame:
  "tracks (nextTrack_begin q) = tracks q \<and> activeTrackIds (nextTrack_begin q) = activeTrackIds q \<and>
   usedTrackIds (nextTrack_begin q) = usedTrackIds q \<and> error (nextTrack_begin q) = None \<and>
   isLoading (nextTrack_begin q)"
  by (simp add: nextTrack_begin_def stop_def)

lemma nextTrack_stops_at_Return:
  assumes "k < maxAttempts"
    and "\<forall>j<k. \<exists>q'. attempt (envs j) (loopStateAt envs (nextTrack_begin q) j) = Continue q'"
    and "attempt (envs k) (loopStateAt envs (nextTrack_begin q) k) = Return r"
  shows "nextTrack envs q = r"
proof -
  have "nextTrack envs q = nextTrack_loop k envs (loopStateAt envs (nextTrack_begin q) k)"
    unfolding nextTrack_def using assms(1,2) by (intro nextTrack_loop_prefix) simp_all
  also have "\<dots> = r"
    using assms(1,3) by (subst nextTrack_loop.simps) simp
  finally show ?thesis .
qed












section \<open>A drawn id with no track\<close>

text \<open>
  Claim C10. When a pass of the retry loop draws an id that has no entry in the track
  map, the id is an active id, \<open>getRandomUnusedTrack\<close> returns nothing and \<open>nextTrack\<close>
  ends there with the error "No tracks available" and not loading, whatever other ids
  the active list holds: the id is not in the used ids afterwards, and the result does
  not depend on the environments of later passes, so no further attempt is made.
\<close>

theorem nextTrack_dangling_id:
  assumes "k < maxAttempts"
    and "\<forall>j<k. \<exists>q'. attempt (envs j) (loopStateAt envs (nextTrack_begin q) j) = Continue q'"
    and "drawnTrackId (randomDraw (envs k)) (loopStateAt envs (nextTrack_begin q) k) = Some i"
    and "map_of (tracks q) i = None"
  shows "i \<in> set (activeTrackIds q) \<and>
         fst (getRandomUnusedTrack (randomDraw (envs k))
                (loopStateAt envs (nextTrack_begin q) k)) = None \<and>
         nextTrack envs q =
           (snd (getRandomUnusedTrack (randomDraw (envs k))
                   (loopStateAt envs (nextTrack_begin q) k)))
             \<lparr>error := Some ''No tracks available'', isLoading := False\<rparr> \<and>
         error (nextTrack envs q) = Some ''No tracks available'' \<and>
         \<not> isLoading (nextTrack envs q) \<and>
         i \<notin> usedTrackIds (nextTrack envs q) \<and>
         (\<forall>envs'. (\<forall>j\<le>k. envs' j = envs j) \<longrightarrow> nextTrack envs' q = nextTrack envs q)"
proof -
  let ?s = "loopStateAt envs (nextTrack_begin q) k"
  let ?g = "getRandomUnusedTrack (randomDraw (envs k)) ?s"
  have fr: "tracks ?s = tracks q" "activeTrackIds ?s = activeTrackIds q"
    using loopStateAt_frame [of envs "nextTrack_begin q" k] nextTrack_begin_frame [of q]
    by simp_all
  have mem: "i \<in> set (activeTrackIds q)"
    using drawnTrackId_mem [OF assms(3)] fr by simp
  have none: "fst ?g = None"
    using assms(3,4) fr by (simp add: getRandomUnusedTrack_fst tracksGet_def)
  have ret: "attempt (envs k) ?s
               = Return ((snd ?g)\<lparr>error := Some ''No tracks available'', isLoading := False\<rparr>)"
    using none by (cases ?g) (simp add: attempt_def)
  have res: "nextTrack envs q
               = (snd ?g)\<lparr>error := Some ''No tracks available'', isLoading := False\<rparr>"
    using nextTrack_stops_at_Return [OF assms(1,2) ret] .
  have notused: "i \<notin> usedTrackIds (snd ?g)"
    using drawnTrackId_unused [OF assms(3)] by (auto simp: getRandomUnusedTrack_snd)
  have indep: "nextTrack envs' q = nextTrack envs q" if eq: "\<forall>j\<le>k. envs' j = envs j" for envs'
  proof -
    have st: "loopStateAt envs' (nextTrack_begin q) j = loopStateAt envs (nextTrack_begin q) j"
      if "j \<le> k" for j
      using eq that by (intro loopStateAt_cong) simp
    have c': "\<forall>j<k. \<exists>q'. attempt (envs' j) (loopStateAt envs' (nextTrack_begin q) j) = Continue q'"
    proof (intro allI impI)
      fix j assume jk: "j < k"
      then have e: "envs' j = envs j" using eq by simp
      have l: "loopStateAt envs' (nextTrack_begin q) j = loopStateAt envs (nextTrack_begin q) j"
        using st [of j] jk by simp
      show "\<exists>q'. attempt (envs' j) (loopStateAt envs' (nextTrack_begin q) j) = Continue q'"
        unfolding e l using assms(2) jk by blast
    qed
    have ek: "envs' k = envs k" using eq by simp
    have r': "attempt (envs' k) (loopStateAt envs' (nextTrack_begin q) k)
               = Return ((snd ?g)\<lparr>error := Some ''No tracks available'', isLoading := False\<rparr>)"
      unfolding ek st [OF order_refl] by (rule ret)
    show ?thesis
      using nextTrack_stops_at_Return [OF assms(1) c' r'] res by simp
  qed
  have fields: "error (nextTrack envs q) = Some ''No tracks available'' \<and>
         \<not> isLoading (nextTrack envs q) \<and> i \<notin> usedTrackIds (nextTrack envs q)"
    unfolding res using notused by simp
  show ?thesis
    using mem none res fields indep by blast
qed

theorem nextTrack_dangling_id_witness:
  "(0::nat) < maxAttempts \<and>
   drawnTrackId (randomDraw (playableEnv 0))
     (loopStateAt playableEnv
        (nextTrack_begin (setPlaylistFilter (Some danglingPlaylist) (newQuizEngine sampleLibrary))) 0)
     = Some ''X'' \<and>
   map_of (tracks (setPlaylistFilter (Some danglingPlaylist) (newQuizEngine sampleLibrary))) ''X''
     = None \<and>
   map_of (tracks (setPlaylistFilter (Some danglingPlaylist) (newQuizEngine sampleLibrary))) ''A''
     = Some (sampleTrack ''A'') \<and>
   activeTrackIds (setPlaylistFilter (Some danglingPlaylist) (newQuizEngine sampleLibrary))
     = [''X'', ''A''] \<and>
   error (nextTrack playableEnv
            (setPlaylistFilter (Some danglingPlaylist) (newQuizEngine sampleLibrary)))
     = Some ''No tracks available'' \<and>
   \<not> isLoading (nextTrack playableEnv
            (setPlaylistFilter (Some danglingPlaylist) (newQuizEngine sampleLibrary))) \<and>
   ''X'' \<notin> usedTrackIds (nextTrack playableEnv
            (setPlaylistFilter (Some danglingPlaylist) (newQuizEngine sampleLibrary))) \<and>
   nextTrack (\<lambda>j. if j = 0 then playableEnv j else missingEnv j)
       (setPlaylistFilter (Some danglingPlaylist) (newQuizEngine sampleLibrary))
     = nextTrack playableEnv
         (setPlaylistFilter (Some danglingPlaylist) (newQuizEngine sampleLibrary))"
proof -
  let ?q = "setPlaylistFilter (Some danglingPlaylist) (newQuizEngine sampleLibrary)"
  have q: "?q = \<lparr>tracks = sampleLibrary, activeTrackIds = [''X'', ''A''], currentTrack = None,
                 isRevealed = False, isLoading = False, error = None,
                 playbackState = stoppedState, usedTrackIds = {}\<rparr>"
    by (simp add: setPlaylistFilter_def reset_def stop_def newQuizEngine_def danglingPlaylist_def)
  have h1: "(0::nat) < maxAttempts" by (simp add: maxAttempts_def)
  have h2: "\<forall>j<(0::nat). \<exists>q'. attempt (playableEnv j)
              (loopStateAt playableEnv (nextTrack_begin ?q) j) = Continue q'"
    by simp
  have h3: "drawnTrackId (randomDraw (playableEnv 0))
              (loopStateAt playableEnv (nextTrack_begin ?q) 0) = Some ''X''"
    unfolding q
    by (simp add: drawnTrackId_def nextTrack_begin_def stop_def playableEnv_def elementAt_def
        randomIndex_def)
  have h4: "map_of (tracks ?q) ''X'' = None"
    unfolding q by (simp add: sampleLibrary_def)
  have a: "map_of (tracks ?q) ''A'' = Some (sampleTrack ''A'')"
    unfolding q by (simp add: sampleLibrary_def)
  note T = nextTrack_dangling_id [OF h1 h2 h3 h4]
  have D: "error (nextTrack playableEnv ?q) = Some ''No tracks available''"
    using T by (elim conjE)
  have E: "\<not> isLoading (nextTrack playableEnv ?q)"
    using T by (elim conjE)
  have F: "''X'' \<notin> usedTrackIds (nextTrack playableEnv ?q)"
    using T by (elim conjE)
  have G: "\<forall>envs'. (\<forall>j\<le>0. envs' j = playableEnv j) \<longrightarrow>
             nextTrack envs' ?q = nextTrack playableEnv ?q"
    using T by (elim conjE)
  have same: "nextTrack (\<lambda>j. if j = 0 then playableEnv j else missingEnv j) ?q
                = nextTrack playableEnv ?q"
    by (rule G [rule_format]) simp
  have act: "activeTrackIds ?q = [''X'', ''A'']"
    unfolding q by simp
  show ?thesis
    by (intro conjI h1 h3 h4 a act D E F same)
qed

section \<open>The error flag\<close>

lemma getRandomUnusedTrack_snd_fields:
  "error (snd (getRandomUnusedTrack r q)) = error q \<and>
   isLoading (snd (getRandomUnusedTrack r q)) = isLoading q \<and>
   currentTrack (snd (getRandomUnusedTrack r q)) = currentTrack q \<and>
   isRevealed (snd (getRandomUnusedTrack r q)) = isRevealed q \<and>
   playbackState (snd (getRandomUnusedTrack r q)) = playbackState q"
  by (simp add: getRandomUnusedTrack_snd)

lemma attempt_Continue_fields:
  assumes "attempt e q = Continue q'"
  shows "error q' = error q \<and> isLoading q' = isLoading q \<and>
         currentTrack q' = currentTrack q \<and> isRevealed q' = isRevealed q"
proof -
  from assms obtain t q1 where g: "getRandomUnusedTrack (randomDraw e) q = (Some t, q1)"
    and q': "q' = q1\<lparr>usedTrackIds := insert (id_track t) (usedTrackIds q1)\<rparr> \<or>
             q' = q1\<lparr>playbackState :=
                    \<lparr>isPlaying = False, currentTime = 0, duration_ps = 0,
                     startOffset = getRandomStartPoint (duration t) (randomStart e),
                     maxPlayTime = 30\<rparr>,
                  usedTrackIds := insert (id_track t) (usedTrackIds q1)\<rparr>"
    unfolding attempt_Continue_iff by blast
  have "q1 = snd (getRandomUnusedTrack (randomDraw e) q)" using g by simp
  then have "error q1 = error q \<and> isLoading q1 = isLoading q \<and>
         currentTrack q1 = currentTrack q \<and> isRevealed q1 = isRevealed q"
    using getRandomUnusedTrack_snd_fields [of "randomDraw e" q] by simp
  with q' show ?thesis by auto
qed

lemma attempt_Return_fields:
  assumes "attempt e q = Return q'"
  shows "(error q' = Some ''No tracks available'' \<and> \<not> isLoading q' \<and>
          currentTrack q' = currentTrack q \<and> isRevealed q' = isRevealed q) \<or>
         (error q' = error q \<and>
          (\<exists>t. currentTrack q' = Some t \<and> id_track t \<in> usedTrackIds q') \<and>
          \<not> isRevealed q' \<and> \<not> isLoading q')"
proof -
  obtain res q1 where g: "getRandomUnusedTrack (randomDraw e) q = (res, q1)"
    by (cases "getRandomUnusedTrack (randomDraw e) q")
  have "q1 = snd (getRandomUnusedTrack (randomDraw e) q)" using g by simp
  then have q1: "error q1 = error q \<and> isLoading q1 = isLoading q \<and>
         currentTrack q1 = currentTrack q \<and> isRevealed q1 = isRevealed q"
    using getRandomUnusedTrack_snd_fields [of "randomDraw e" q] by simp
  show ?thesis
  proof (cases res)
    case None
    with assms g have "q' = q1\<lparr>error := Some ''No tracks available'', isLoading := False\<rparr>"
      by (simp add: attempt_Return_iff)
    with q1 show ?thesis by simp
  next
    case (Some t)
    with assms g obtain d where
      "q' = play e (q1\<lparr>playbackState :=
                    \<lparr>isPlaying = False, currentTime = 0, duration_ps = d,
                     startOffset = getRandomStartPoint (duration t) (randomStart e),
                     maxPlayTime = 30\<rparr>,
                  currentTrack := Some t, isRevealed := False,
                  usedTrackIds := insert (id_track t) (usedTrackIds q1),
                  isLoading := False\<rparr>)"
      by (auto simp: attempt_Return_iff)
    with q1 show ?thesis by (simp add: play_def)
  qed
qed

lemma nextTrack_loop_result:
  "error q = None \<Longrightarrow>
     (error (nextTrack_loop a envs q) = None \<and>
      (\<exists>t. currentTrack (nextTrack_loop a envs q) = Some t \<and>
           id_track t \<in> usedTrackIds (nextTrack_loop a envs q)) \<and>
      \<not> isRevealed (nextTrack_loop a envs q) \<and> \<not> isLoading (nextTrack_loop a envs q)) \<or>
     (error (nextTrack_loop a envs q) = Some ''No tracks available'' \<and>
      \<not> isLoading (nextTrack_loop a envs q)) \<or>
     (error (nextTrack_loop a envs q) = Some ''Could not find a playable track'' \<and>
      currentTrack (nextTrack_loop a envs q) = None \<and>
      \<not> isRevealed (nextTrack_loop a envs q) \<and> \<not> isLoading (nextTrack_loop a envs q))"
proof (induction a envs q rule: nextTrack_loop.induct)
  case (1 attempts envs q)
  show ?case
  proof (cases "attempts < maxAttempts")
    case False
    then have "nextTrack_loop attempts envs q =
       q\<lparr>error := Some ''Could not find a playable track'', currentTrack := None,
         isRevealed := False, isLoading := False\<rparr>"
      by (subst nextTrack_loop.simps) simp
    then show ?thesis by simp
  next
    case True
    show ?thesis
    proof (cases "attempt (envs attempts) q")
      case (Return q')
      then have eq: "nextTrack_loop attempts envs q = q'"
        using True by (subst nextTrack_loop.simps) simp
      show ?thesis
        unfolding eq using attempt_Return_fields [OF Return] "1.prems" by auto
    next
      case (Continue q')
      then have eq: "nextTrack_loop attempts envs q = nextTrack_loop (attempts + 1) envs q'"
        using True by (subst nextTrack_loop.simps) simp
      have "error q' = None"
        using attempt_Continue_fields [OF Continue] "1.prems" by simp
      from "1.IH" [OF True Continue this] show ?thesis
        unfolding eq .
    qed
  qed
qed

lemma loopStateAt_loading:
  assumes "\<forall>j<k. \<exists>q'. attempt (envs j) (loopStateAt envs q j) = Continue q'"
  shows "error (loopStateAt envs q k) = error q \<and> isLoading (loopStateAt envs q k) = isLoading q"
  using assms
proof (induction k)
  case 0
  then show ?case by simp
next
  case (Suc k)
  then have IH: "error (loopStateAt envs q k) = error q \<and>
                 isLoading (loopStateAt envs q k) = isLoading q"
    by simp
  from Suc.prems obtain q' where q': "attempt (envs k) (loopStateAt envs q k) = Continue q'"
    by blast
  from attempt_Continue_fields [OF q'] IH q' show ?case by simp
qed

lemma nextTrack_empty_library:
  "nextTrack envs (newQuizEngine []) =
     (newQuizEngine [])\<lparr>error := Some ''No tracks available''\<rparr>"
proof -
  have "attempt (envs 0) (nextTrack_begin (newQuizEngine []))
          = Return ((newQuizEngine [])\<lparr>error := Some ''No tracks available''\<rparr>)"
    by (simp add: attempt_def getRandomUnusedTrack_def getRandomTrack_def nextTrack_begin_def
        stop_def newQuizEngine_def)
  then show ?thesis
    unfolding nextTrack_def by (subst nextTrack_loop.simps) (simp add: maxAttempts_def)
qed

lemma nextTrack_sample_playable:
  "nextTrack playableEnv (newQuizEngine sampleLibrary) =
     \<lparr>tracks = sampleLibrary, activeTrackIds = [''A'', ''B'', ''C''],
      currentTrack = Some (sampleTrack ''A''), isRevealed = False, isLoading = False,
      error = None,
      playbackState = \<lparr>isPlaying = True, currentTime = 0, duration_ps = 100,
                        startOffset = 50, maxPlayTime = 30\<rparr>,
      usedTrackIds = {''A''}\<rparr>"
proof -
  have "attempt (playableEnv 0) (nextTrack_begin (newQuizEngine sampleLibrary))
          = Return \<lparr>tracks = sampleLibrary, activeTrackIds = [''A'', ''B'', ''C''],
      currentTrack = Some (sampleTrack ''A''), isRevealed = False, isLoading = False,
      error = None,
      playbackState = \<lparr>isPlaying = True, currentTime = 0, duration_ps = 100,
                        startOffset = 50, maxPlayTime = 30\<rparr>,
      usedTrackIds = {''A''}\<rparr>"
    by (simp add: attempt_def getRandomUnusedTrack_def getRandomTrack_def nextTrack_begin_def
        stop_def newQuizEngine_def sampleLibrary_def tracksGet_def elementAt_def randomIndex_def
        playableEnv_def checkTrackExists_def load_def play_def getRandomStartPoint_100_half
        sampleTrack_def Let_def)
  then show ?thesis
    unfolding nextTrack_def by (subst nextTrack_loop.simps) (simp add: maxAttempts_def)
qed

text \<open>
  Claim C3, as stated, says that only a successful load clears the error. An engine over
  an empty library gets the error "No tracks available" from \<open>nextTrack\<close>; \<open>reset\<close>,
  \<open>setPlaylistFilter\<close> and the entry of the next \<open>nextTrack\<close> each clear it, and no track
  has been loaded.
\<close>

theorem error_cleared_without_load:
  "error (nextTrack missingEnv (newQuizEngine [])) = Some ''No tracks available'' \<and>
   error (reset (nextTrack missingEnv (newQuizEngine []))) = None \<and>
   currentTrack (reset (nextTrack missingEnv (newQuizEngine []))) = None \<and>
   error (setPlaylistFilter None (nextTrack missingEnv (newQuizEngine []))) = None \<and>
   currentTrack (setPlaylistFilter None (nextTrack missingEnv (newQuizEngine []))) = None \<and>
   error (nextTrack_begin (nextTrack missingEnv (newQuizEngine []))) = None \<and>
   currentTrack (nextTrack_begin (nextTrack missingEnv (newQuizEngine []))) = None \<and>
   isLoading (nextTrack_begin (nextTrack missingEnv (newQuizEngine [])))"
  unfolding nextTrack_empty_library
  by (simp add: reset_def setPlaylistFilter_def nextTrack_begin_def stop_def newQuizEngine_def)

text \<open>
  Claim C3, amended. The error is cleared by \<open>reset\<close>, by \<open>setPlaylistFilter\<close> and by the
  entry into loading at the start of every \<open>nextTrack\<close>; \<open>reveal\<close> leaves it as it is. It
  is set only by \<open>nextTrack\<close>, from the loading state: while the passes of the retry loop
  go round the engine is loading with no error, a pass that returns either sets "No tracks
  available" or has loaded a track and leaves the error as it is. So after \<open>nextTrack\<close>
  the error is absent only when a track is loaded, and otherwise it is one of the two
  messages and the engine is not loading.
\<close>

theorem error_set_and_cleared:
  fixes q :: QuizEngine
  shows "error (reset q) = None \<and>
         error (setPlaylistFilter p q) = None \<and>
         error (nextTrack_begin q) = None \<and> isLoading (nextTrack_begin q) \<and>
         error (reveal q) = error q \<and>
         (\<forall>k. (\<forall>j<k. \<exists>q'. attempt (envs j) (loopStateAt envs (nextTrack_begin q) j) = Continue q') \<longrightarrow>
              isLoading (loopStateAt envs (nextTrack_begin q) k) \<and>
              error (loopStateAt envs (nextTrack_begin q) k) = None) \<and>
         (\<forall>e s s'. attempt e s = Return s' \<longrightarrow>
              (error s' = Some ''No tracks available'' \<and> \<not> isLoading s') \<or>
              (error s' = error s \<and> currentTrack s' \<noteq> None \<and> \<not> isLoading s')) \<and>
         (error (nextTrack envs q) = None \<longrightarrow>
              currentTrack (nextTrack envs q) \<noteq> None \<and> \<not> isLoading (nextTrack envs q)) \<and>
         (error (nextTrack envs q) \<noteq> None \<longrightarrow>
              (error (nextTrack envs q) = Some ''No tracks available'' \<or>
               error (nextTrack envs q) = Some ''Could not find a playable track'') \<and>
              \<not> isLoading (nextTrack envs q))"
proof -
  have c1: "error (reset q) = None" by (simp add: reset_def stop_def)
  have c2: "error (setPlaylistFilter p q) = None"
    by (simp add: setPlaylistFilter_def reset_def stop_def)
  have c3: "error (nextTrack_begin q) = None \<and> isLoading (nextTrack_begin q)"
    by (simp add: nextTrack_begin_def stop_def)
  have c4: "error (reveal q) = error q" by (simp add: reveal_def)
  have c5: "isLoading (loopStateAt envs (nextTrack_begin q) k) \<and>
            error (loopStateAt envs (nextTrack_begin q) k) = None"
    if "\<forall>j<k. \<exists>q'. attempt (envs j) (loopStateAt envs (nextTrack_begin q) j) = Continue q'" for k
    using loopStateAt_loading [OF that] c3 by simp
  have c6: "(error s' = Some ''No tracks available'' \<and> \<not> isLoading s') \<or>
            (error s' = error s \<and> currentTrack s' \<noteq> None \<and> \<not> isLoading s')"
    if "attempt e s = Return s'" for e s s'
    using attempt_Return_fields [OF that] by auto
  have res: "(error (nextTrack envs q) = None \<and>
      (\<exists>t. currentTrack (nextTrack envs q) = Some t \<and>
           id_track t \<in> usedTrackIds (nextTrack envs q)) \<and>
      \<not> isRevealed (nextTrack envs q) \<and> \<not> isLoading (nextTrack envs q)) \<or>
     (error (nextTrack envs q) = Some ''No tracks available'' \<and>
      \<not> isLoading (nextTrack envs q)) \<or>
     (error (nextTrack envs q) = Some ''Could not find a playable track'' \<and>
      currentTrack (nextTrack envs q) = None \<and>
      \<not> isRevealed (nextTrack envs q) \<and> \<not> isLoading (nextTrack envs q))"
    unfolding nextTrack_def using c3 by (intro nextTrack_loop_result) simp
  have c7: "error (nextTrack envs q) = None \<Longrightarrow>
              currentTrack (nextTrack envs q) \<noteq> None \<and> \<not> isLoading (nextTrack envs q)"
    using res by auto
  have c8: "error (nextTrack envs q) \<noteq> None \<Longrightarrow>
              (error (nextTrack envs q) = Some ''No tracks available'' \<or>
               error (nextTrack envs q) = Some ''Could not find a playable track'') \<and>
              \<not> isLoading (nextTrack envs q)"
    using res by auto
  show ?thesis
    using c1 c2 c3 c4 c5 c6 c7 c8 by blast
qed

theorem error_set_and_cleared_witness:
  "error (nextTrack missingEnv (newQuizEngine [])) = Some ''No tracks available'' \<and>
   \<not> isLoading (nextTrack missingEnv (newQuizEngine [])) \<and>
   error (reset (nextTrack missingEnv (newQuizEngine []))) = None \<and>
   error (nextTrack playableEnv (newQuizEngine sampleLibrary)) = None \<and>
   currentTrack (nextTrack playableEnv (newQuizEngine sampleLibrary)) = Some (sampleTrack ''A'') \<and>
   \<not> isLoading (nextTrack playableEnv (newQuizEngine sampleLibrary))"
proof -
  note T1 = error_set_and_cleared [of "nextTrack missingEnv (newQuizEngine [])" None missingEnv]
  note T2 = error_set_and_cleared [of "newQuizEngine []" None missingEnv]
  note T3 = error_set_and_cleared [of "newQuizEngine sampleLibrary" None playableEnv]
  have e: "error (nextTrack missingEnv (newQuizEngine [])) = Some ''No tracks available''"
    by (simp add: nextTrack_empty_library)
  have n: "error (nextTrack playableEnv (newQuizEngine sampleLibrary)) = None"
    by (simp add: nextTrack_sample_playable)
  have a: "\<not> isLoading (nextTrack missingEnv (newQuizEngine []))"
    using T2 e by simp
  have b: "error (reset (nextTrack missingEnv (newQuizEngine []))) = None"
    using T1 by (elim conjE)
  have c: "\<not> isLoading (nextTrack playableEnv (newQuizEngine sampleLibrary))"
    using T3 n by simp
  have d: "currentTrack (nextTrack playableEnv (newQuizEngine sampleLibrary))
             = Some (sampleTrack ''A'')"
    by (simp add: nextTrack_sample_playable)
  show ?thesis
    by (intro conjI e a b n d c)
qed

section \<open>The sampling loop of the audio player\<close>

lemma step_interval_only_by_play:
  "ev \<noteq> PlayEvent \<Longrightarrow> updateInterval (fst (step ev p)) \<Longrightarrow> updateInterval p"
  by (cases ev)
     (auto simp: handlePause_def handleEnded_def handleError_def handleLoadedMetadata_def
        stopUpdateLoop_def updateLoopTick_def Let_def pause_def play_player_def toggle_def
        stop_player_def split: if_splits)

lemma step_tick_without_interval:
  "\<not> updateInterval p \<Longrightarrow> isTick ev \<Longrightarrow> step ev p = (p, [])"
  by (cases ev) simp_all

lemma run_Cons:
  "run (ev # evs) p
     = (fst (run evs (fst (step ev p))), snd (step ev p) @ snd (run evs (fst (step ev p))))"
  by (simp split: prod.splits)

lemma run_without_play:
  "\<not> updateInterval p \<Longrightarrow> PlayEvent \<notin> set evs \<Longrightarrow>
   \<not> updateInterval (fst (run evs p)) \<and>
   run evs p = run (filter (\<lambda>ev. \<not> isTick ev) evs) p"
proof (induction evs arbitrary: p)
  case Nil
  then show ?case by simp
next
  case (Cons ev evs)
  let ?p1 = "fst (step ev p)"
  have ne: "ev \<noteq> PlayEvent" using Cons.prems(2) by auto
  have p1: "\<not> updateInterval ?p1"
    using step_interval_only_by_play [OF ne, of p] Cons.prems(1) by blast
  have rest: "PlayEvent \<notin> set evs" using Cons.prems(2) by simp
  note IH = Cons.IH [OF p1 rest]
  have held: "\<not> updateInterval (fst (run (ev # evs) p))"
    unfolding run_Cons using IH [THEN conjunct1] by simp
  have eq: "run (ev # evs) p = run (filter (\<lambda>ev. \<not> isTick ev) (ev # evs)) p"
  proof (cases "isTick ev")
    case True
    have st: "step ev p = (p, [])"
      by (rule step_tick_without_interval [OF Cons.prems(1) True])
    have "run (ev # evs) p = run evs p" unfolding run_Cons st by simp
    also have "\<dots> = run (filter (\<lambda>ev. \<not> isTick ev) evs) p"
      using IH [THEN conjunct2] unfolding st by simp
    finally show ?thesis using True by simp
  next
    case False
    have "run (ev # evs) p = (fst (run evs ?p1), snd (step ev p) @ snd (run evs ?p1))"
      by (rule run_Cons)
    also have "\<dots> = (fst (run (filter (\<lambda>ev. \<not> isTick ev) evs) ?p1),
                     snd (step ev p) @ snd (run (filter (\<lambda>ev. \<not> isTick ev) evs) ?p1))"
      using IH [THEN conjunct2] by simp
    also have "\<dots> = run (ev # filter (\<lambda>ev. \<not> isTick ev) evs) p"
      by (rule run_Cons [symmetric])
    finally show ?thesis using False by simp
  qed
  show ?case using held eq by (rule conjI)
qed

lemma step_interval_implies_playing:
  assumes "ev \<noteq> StopCall" and "updateInterval p \<longrightarrow> isPlaying (state p)"
  shows "updateInterval (fst (step ev p)) \<longrightarrow> isPlaying (state (fst (step ev p)))"
  using assms
  by (cases ev)
     (auto simp: handlePlay_def handlePause_def handleEnded_def handleError_def
        handleLoadedMetadata_def startUpdateLoop_def stopUpdateLoop_def updateLoopTick_def
        Let_def pause_def play_player_def toggle_def split: if_splits)

lemma run_interval_implies_playing:
  "StopCall \<notin> set evs \<Longrightarrow> (updateInterval p \<longrightarrow> isPlaying (state p)) \<Longrightarrow>
   (updateInterval (fst (run evs p)) \<longrightarrow> isPlaying (state (fst (run evs p))))"
proof (induction evs arbitrary: p)
  case Nil
  then show ?case by simp
next
  case (Cons ev evs)
  have ne: "ev \<noteq> StopCall" using Cons.prems(1) by auto
  have inv: "updateInterval (fst (step ev p)) \<longrightarrow> isPlaying (state (fst (step ev p)))"
    by (rule step_interval_implies_playing [OF ne Cons.prems(2)])
  have rest: "StopCall \<notin> set evs" using Cons.prems(1) by simp
  from Cons.IH [OF rest inv] show ?case unfolding run_Cons by simp
qed

lemma loaded_run_past_cap:
  "run [PlayCall, PlayEvent, IntervalTick 80, PauseEvent, ToggleCall, PlayEvent] loadedPlayer
     = (\<lparr>state = \<lparr>isPlaying = True, currentTime = 30, duration_ps = 200, startOffset = 50,
                  maxPlayTime = 30\<rparr>,
         updateInterval = True\<rparr>,
        [AudioPlay, AudioPause, AudioPlay])"
  by (simp add: loadedPlayer_def play_player_def handlePlay_def startUpdateLoop_def
      updateLoopTick_def pause_def handlePause_def stopUpdateLoop_def toggle_def binary64_eval)

lemma loaded_run_stop:
  "run [PlayCall, PlayEvent, StopCall] loadedPlayer
     = (\<lparr>state = stoppedState, updateInterval = True\<rparr>,
        [AudioPlay, AudioPause, AudioSetSrc ''''])"
  by (simp add: loadedPlayer_def play_player_def handlePlay_def startUpdateLoop_def
      pause_def stop_player_def)

text \<open>
  Claim C7, as stated, has an excerpt never play on once the cap has elapsed, and the tick
  run only while playing. After a load at offset 50 with cap 30: play starts, the tick at
  device time 80 finds the elapsed time 30 and pauses, the pause event stops the loop;
  then a toggle issues play, and after the play event the player is playing at an elapsed
  time that is not below the cap. And after play and \<open>stop()\<close> the interval is still held
  while the player is not playing, until the device's pause event arrives.
\<close>

theorem excerpt_plays_past_cap:
  "isPlaying (state (fst (run [PlayCall, PlayEvent, IntervalTick 80, PauseEvent, ToggleCall,
                               PlayEvent] loadedPlayer))) \<and>
   maxPlayTime (state (fst (run [PlayCall, PlayEvent, IntervalTick 80, PauseEvent, ToggleCall,
                                 PlayEvent] loadedPlayer)))
     \<le> currentTime (state (fst (run [PlayCall, PlayEvent, IntervalTick 80, PauseEvent,
                                     ToggleCall, PlayEvent] loadedPlayer))) \<and>
   snd (run [PlayCall, PlayEvent, IntervalTick 80, PauseEvent, ToggleCall, PlayEvent]
          loadedPlayer)
     = [AudioPlay, AudioPause, AudioPlay] \<and>
   updateInterval (fst (run [PlayCall, PlayEvent, StopCall] loadedPlayer)) \<and>
   \<not> isPlaying (state (fst (run [PlayCall, PlayEvent, StopCall] loadedPlayer)))"
  unfolding loaded_run_past_cap loaded_run_stop
  by (simp add: stoppedState_def)

text \<open>
  Claim C7, amended. While the interval is held, each sampling tick sets the current time
  to the device's absolute time minus the start offset and changes nothing else, and it
  issues a pause on the device exactly when that time is at least the cap (30 seconds in
  the stopped state, and what the engine loads with). The device's pause, ended and error
  events clear the playing flag and the interval; only the device's play event sets the
  interval, so between such an event and the next play event no tick runs. The cap is
  checked at ticks only: a toggle while not playing issues play whatever the elapsed
  time, and the excerpt then plays on until the next tick pauses it again. In every state
  reached without \<open>stop()\<close> from one where a held interval means playing, a held interval
  means playing; \<open>stop()\<close> clears the playing flag and leaves the interval to the pause
  handler.
\<close>

theorem updateLoop_samples_and_pauses:
  "(updateInterval p \<longrightarrow>
      step (IntervalTick t) p
        = (p\<lparr>state := (state p)\<lparr>currentTime := binary64 (t - startOffset (state p))\<rparr>\<rparr>,
           if maxPlayTime (state p) \<le> binary64 (t - startOffset (state p))
           then [AudioPause] else [])) \<and>
   (\<not> updateInterval p \<longrightarrow> step (IntervalTick t) p = (p, [])) \<and>
   maxPlayTime stoppedState = 30 \<and>
   \<not> updateInterval (fst (step PauseEvent p)) \<and> \<not> isPlaying (state (fst (step PauseEvent p))) \<and>
   \<not> updateInterval (fst (step EndedEvent p)) \<and> \<not> isPlaying (state (fst (step EndedEvent p))) \<and>
   \<not> updateInterval (fst (step ErrorEvent p)) \<and> \<not> isPlaying (state (fst (step ErrorEvent p))) \<and>
   updateInterval (fst (step PlayEvent p)) \<and> isPlaying (state (fst (step PlayEvent p))) \<and>
   (\<forall>ev. ev \<noteq> PlayEvent \<and> updateInterval (fst (step ev p)) \<longrightarrow> updateInterval p) \<and>
   (\<forall>evs. \<not> updateInterval p \<and> PlayEvent \<notin> set evs \<longrightarrow>
      \<not> updateInterval (fst (run evs p)) \<and>
      run evs p = run (filter (\<lambda>ev. \<not> isTick ev) evs) p) \<and>
   (\<not> isPlaying (state p) \<longrightarrow> step ToggleCall p = (p, [AudioPlay])) \<and>
   (isPlaying (state p) \<longrightarrow> step ToggleCall p = (p, [AudioPause])) \<and>
   (\<forall>evs. StopCall \<notin> set evs \<and> (updateInterval p \<longrightarrow> isPlaying (state p)) \<longrightarrow>
      (updateInterval (fst (run evs p)) \<longrightarrow> isPlaying (state (fst (run evs p))))) \<and>
   step StopCall p = (p\<lparr>state := stoppedState\<rparr>, [AudioPause, AudioSetSrc ''''])"
proof -
  have a: "updateInterval p \<longrightarrow>
      step (IntervalTick t) p
        = (p\<lparr>state := (state p)\<lparr>currentTime := binary64 (t - startOffset (state p))\<rparr>\<rparr>,
           if maxPlayTime (state p) \<le> binary64 (t - startOffset (state p))
           then [AudioPause] else [])"
    by (simp add: updateLoopTick_def Let_def pause_def)
  have b: "\<not> updateInterval p \<longrightarrow> step (IntervalTick t) p = (p, [])" by simp
  have c: "maxPlayTime stoppedState = 30" by (simp add: stoppedState_def)
  have d: "\<not> updateInterval (fst (step PauseEvent p))"
          "\<not> isPlaying (state (fst (step PauseEvent p)))"
          "\<not> updateInterval (fst (step EndedEvent p))"
          "\<not> isPlaying (state (fst (step EndedEvent p)))"
          "\<not> updateInterval (fst (step ErrorEvent p))"
          "\<not> isPlaying (state (fst (step ErrorEvent p)))"
    by (simp_all add: handlePause_def handleEnded_def handleError_def stopUpdateLoop_def)
  have e: "updateInterval (fst (step PlayEvent p))" "isPlaying (state (fst (step PlayEvent p)))"
    by (simp_all add: handlePlay_def startUpdateLoop_def)
  have f: "\<forall>ev. ev \<noteq> PlayEvent \<and> updateInterval (fst (step ev p)) \<longrightarrow> updateInterval p"
    using step_interval_only_by_play [of _ p] by blast
  have g: "\<forall>evs. \<not> updateInterval p \<and> PlayEvent \<notin> set evs \<longrightarrow>
      \<not> updateInterval (fst (run evs p)) \<and>
      run evs p = run (filter (\<lambda>ev. \<not> isTick ev) evs) p"
    using run_without_play [of p] by blast
  have h: "\<not> isPlaying (state p) \<longrightarrow> step ToggleCall p = (p, [AudioPlay])"
          "isPlaying (state p) \<longrightarrow> step ToggleCall p = (p, [AudioPause])"
    by (simp_all add: toggle_def pause_def play_player_def)
  have i: "\<forall>evs. StopCall \<notin> set evs \<and> (updateInterval p \<longrightarrow> isPlaying (state p)) \<longrightarrow>
      (updateInterval (fst (run evs p)) \<longrightarrow> isPlaying (state (fst (run evs p))))"
    using run_interval_implies_playing [of _ p] by blast
  have j: "step StopCall p = (p\<lparr>state := stoppedState\<rparr>, [AudioPause, AudioSetSrc ''''])"
    by (simp add: stop_player_def pause_def)
  show ?thesis
    by (intro conjI a b c d e f g h i j)
qed

theorem updateLoop_samples_and_pauses_witness:
  "updateInterval (fst (run [PlayCall, PlayEvent] loadedPlayer)) \<and>
   step (IntervalTick 80) (fst (run [PlayCall, PlayEvent] loadedPlayer))
     = (\<lparr>state = \<lparr>isPlaying = True, currentTime = 30, duration_ps = 200, startOffset = 50,
                  maxPlayTime = 30\<rparr>,
         updateInterval = True\<rparr>,
        [AudioPause]) \<and>
   step (IntervalTick 60) (fst (run [PlayCall, PlayEvent] loadedPlayer))
     = (\<lparr>state = \<lparr>isPlaying = True, currentTime = 10, duration_ps = 200, startOffset = 50,
                  maxPlayTime = 30\<rparr>,
         updateInterval = True\<rparr>,
        []) \<and>
   \<not> updateInterval loadedPlayer \<and>
   step (IntervalTick 80) loadedPlayer = (loadedPlayer, []) \<and>
   \<not> isPlaying (state loadedPlayer) \<and>
   step ToggleCall loadedPlayer = (loadedPlayer, [AudioPlay]) \<and>
   run [IntervalTick 80, PauseCall, IntervalTick 90] loadedPlayer
     = run [PauseCall] loadedPlayer"
proof -
  let ?p = "fst (run [PlayCall, PlayEvent] loadedPlayer)"
  have p: "?p = \<lparr>state = \<lparr>isPlaying = True, currentTime = 0, duration_ps = 200,
                           startOffset = 50, maxPlayTime = 30\<rparr>,
                  updateInterval = True\<rparr>"
    by (simp add: loadedPlayer_def play_player_def handlePlay_def startUpdateLoop_def)
  have held: "updateInterval ?p" unfolding p by simp
  note T = updateLoop_samples_and_pauses [of ?p 80]
  note T60 = updateLoop_samples_and_pauses [of ?p 60]
  note L = updateLoop_samples_and_pauses [of loadedPlayer 80]
  have t80: "step (IntervalTick 80) ?p
     = (\<lparr>state = \<lparr>isPlaying = True, currentTime = 30, duration_ps = 200, startOffset = 50,
                  maxPlayTime = 30\<rparr>,
         updateInterval = True\<rparr>,
        [AudioPause])"
    using T [THEN conjunct1, rule_format, OF held] unfolding p
    by (simp add: binary64_eval)
  have t60: "step (IntervalTick 60) ?p
     = (\<lparr>state = \<lparr>isPlaying = True, currentTime = 10, duration_ps = 200, startOffset = 50,
                  maxPlayTime = 30\<rparr>,
         updateInterval = True\<rparr>,
        [])"
    using T60 [THEN conjunct1, rule_format, OF held] unfolding p
    by (simp add: binary64_eval)
  have nl: "\<not> updateInterval loadedPlayer" by (simp add: loadedPlayer_def)
  have np: "\<not> isPlaying (state loadedPlayer)" by (simp add: loadedPlayer_def)
  have l80: "step (IntervalTick 80) loadedPlayer = (loadedPlayer, [])"
    by (rule L [THEN conjunct2, THEN conjunct1, rule_format, OF nl])
  have tg: "step ToggleCall loadedPlayer = (loadedPlayer, [AudioPlay])"
    using L np by (elim conjE) simp
  have "\<not> updateInterval loadedPlayer \<and>
        PlayEvent \<notin> set [IntervalTick 80, PauseCall, IntervalTick 90]"
    using nl by simp
  then have "run [IntervalTick 80, PauseCall, IntervalTick 90] loadedPlayer
               = run (filter (\<lambda>ev. \<not> isTick ev) [IntervalTick 80, PauseCall, IntervalTick 90])
                   loadedPlayer"
    using L by (elim conjE) blast
  then have nt: "run [IntervalTick 80, PauseCall, IntervalTick 90] loadedPlayer
               = run [PauseCall] loadedPlayer"
    by simp
  show ?thesis
    by (intro conjI held t80 t60 nl l80 np tg nt)
qed

end
